theory Spec2Isabelle
  imports Main "HOL-Library.Multiset" "HOL-Library.Char_ord" "HOL-Library.List_Lexorder"
begin

unbundle bit_operations_syntax

section \<open>Data model\<close>

text \<open>
  The program is one Python script, \<^verbatim>\<open>generate_ip_csv.py\<close>. Its data frames are modelled
  as lists of rows, one record type per table layout. Python exceptions are values of
  \<open>error\<close>; a function that may raise returns \<open>error + 'a\<close> with \<open>Inl\<close> for the exception.
  Python strings are \<open>string\<close>; a \<open>char\<close> stands for one code point below 256.
\<close>

datatype error =
    KeyError string
  | IndexError
  | ValueError
  | AddressValueError
  | FileNotFoundError string
  | IsADirectoryError string
  | FileExistsError string
  | SystemExit int

text \<open>The canonical frame: columns \<^verbatim>\<open>Network\<close> and \<^verbatim>\<open>Country\<close>.\<close>

record cidr_row =
  Network :: string
  Country :: string

text \<open>A row of the range table read by \<^verbatim>\<open>load_dbip_csv\<close>.\<close>

record range_row =
  Range_Start :: string
  Range_End :: string
  Range_Country :: string

text \<open>A row of \<^verbatim>\<open>GeoLite2-Country-Locations-en.csv\<close> (the columns the script reads).\<close>

record location_row =
  country_name :: string
  loc_geoname_id :: int

text \<open>
  A row of \<^verbatim>\<open>GeoLite2-Country-Blocks-IPv*.csv\<close>. An empty cell of an identifier column is
  read by pandas as NaN, which compares unequal to every number: it is \<open>None\<close> here.
\<close>

record block_row =
  network :: string
  geoname_id :: "int option"
  registered_country_geoname_id :: "int option"
  represented_country_geoname_id :: "int option"
  is_anonymous_proxy :: int
  is_satellite_provider :: int

text \<open>
  The file system the script sees: a path is absent, a directory, or a file whose parsed
  content is one of the tables above (the HTML export is the list of cells of its
  \<^verbatim>\<open>IPv4\<close> column). Parsing CSV and HTML text is the work of pandas and BeautifulSoup and
  is not modelled.
\<close>

datatype file_content =
    Directory
  | RangeCsv "range_row list"
  | LocationsCsv "location_row list"
  | BlocksCsv "block_row list"
  | CidrCsv "cidr_row list"
  | ItoXls "string list"

record world =
  files :: "string \<rightharpoonup> file_content"
  reads :: "string list"
  made_dirs :: "string list"
  written :: "(string \<times> string list) list"

type_synonym 'a io = "world \<Rightarrow> (error + 'a) \<times> world"

definition return_io :: "'a \<Rightarrow> 'a io" where
  "return_io x = (\<lambda>w. (Inr x, w))"

definition raise_io :: "error \<Rightarrow> 'a io" where
  "raise_io e = (\<lambda>w. (Inl e, w))"

definition then_io :: "'a io \<Rightarrow> ('a \<Rightarrow> 'b io) \<Rightarrow> 'b io" where
  "then_io m f = (\<lambda>w. case m w of (Inl e, w') \<Rightarrow> (Inl e, w') | (Inr x, w') \<Rightarrow> f x w')"

text \<open>
  Opening a file for reading: the path is logged; an absent path raises
  \<^verbatim>\<open>FileNotFoundError\<close>, a directory \<^verbatim>\<open>IsADirectoryError\<close>.
\<close>

definition open_file :: "string \<Rightarrow> file_content io" where
  "open_file path = (\<lambda>w.
     case files w path of
       None \<Rightarrow> (Inl (FileNotFoundError path), w)
     | Some Directory \<Rightarrow> (Inl (IsADirectoryError path), w)
     | Some f \<Rightarrow> (Inr f, w\<lparr>reads := reads w @ [path]\<rparr>))"

section \<open>Strings and integers of Python\<close>

text \<open>\<^verbatim>\<open>s.split(c)\<close> for a one-character separator: never empty, one more part than separators.\<close>

fun split_on :: "char \<Rightarrow> string \<Rightarrow> string list" where
  "split_on c [] = [[]]"
| "split_on c (x # xs) =
     (if x = c then [] # split_on c xs
      else (case split_on c xs of p # ps \<Rightarrow> (x # p) # ps | [] \<Rightarrow> [[x]]))"

text \<open>\<^verbatim>\<open>sep.join(parts)\<close>.\<close>

fun join :: "string \<Rightarrow> string list \<Rightarrow> string" where
  "join sep [] = []"
| "join sep [p] = p"
| "join sep (p # q # ps) = p @ sep @ join sep (q # ps)"

text \<open>
  \<^verbatim>\<open>int(s)\<close> in base 10: surrounding whitespace is stripped (tab, line feed, vertical
  tab, form feed, carriage return, space, U+0085 and U+00A0; the separators U+001C to
  U+001F are not), one sign is allowed, and the digits may be grouped by single
  underscores. Anything else raises \<^verbatim>\<open>ValueError\<close>
  (\<open>None\<close> here). The interpreter's configurable limit on the number of digits is not
  modelled.
\<close>

definition is_space :: "char \<Rightarrow> bool" where
  "is_space c = ((of_char c :: nat) \<in> {9, 10, 11, 12, 13, 32, 133, 160})"

definition is_digit :: "char \<Rightarrow> bool" where
  "is_digit c = (48 \<le> (of_char c :: nat) \<and> (of_char c :: nat) \<le> 57)"

definition digit_val :: "char \<Rightarrow> nat" where
  "digit_val c = of_char c - 48"

definition strip :: "string \<Rightarrow> string" where
  "strip s = rev (dropWhile is_space (rev (dropWhile is_space s)))"

fun after_digit :: "nat \<Rightarrow> string \<Rightarrow> nat option" where
  "after_digit acc [] = Some acc"
| "after_digit acc (c # cs) =
     (if is_digit c then after_digit (acc * 10 + digit_val c) cs
      else if c = CHR ''_'' then
        (case cs of
           [] \<Rightarrow> None
         | d # ds \<Rightarrow> if is_digit d then after_digit (acc * 10 + digit_val d) ds else None)
      else None)"

definition parse_digits :: "string \<Rightarrow> nat option" where
  "parse_digits s =
     (case s of [] \<Rightarrow> None
      | c # cs \<Rightarrow> if is_digit c then after_digit (digit_val c) cs else None)"

definition py_int :: "string \<Rightarrow> int option" where
  "py_int s =
     (case strip s of
        [] \<Rightarrow> None
      | c # cs \<Rightarrow>
          if c = CHR ''-'' then map_option (\<lambda>n. - int n) (parse_digits cs)
          else if c = CHR ''+'' then map_option int (parse_digits cs)
          else map_option int (parse_digits (c # cs)))"

text \<open>The decimal text of an integer, as an f-string prints it.\<close>

definition digit_char :: "nat \<Rightarrow> char" where
  "digit_char d = char_of (48 + d)"

function digits :: "nat \<Rightarrow> string" where
  "digits n = (if n < 10 then [digit_char n] else digits (n div 10) @ [digit_char (n mod 10)])"
  by pat_completeness auto
termination
  by (relation "measure id") auto

declare digits.simps [simp del]

definition py_str :: "int \<Rightarrow> string" where
  "py_str i = (if i < 0 then CHR ''-'' # digits (nat (- i)) else digits (nat i))"

section \<open>Sorting a frame\<close>

text \<open>
  \<^verbatim>\<open>DataFrame.sort_values\<close> is called with its default \<^verbatim>\<open>kind='quicksort'\<close>, which orders
  the rows by the key column and promises nothing about rows with equal keys. The two
  sorts of the script are therefore parameters of the model, and \<open>sorts_by\<close> says what
  every implementation guarantees: the result is a rearrangement of the frame in which
  the keys ascend. Text conversion of addresses by the \<^verbatim>\<open>ipaddress\<close> module is a
  parameter as well: \<open>ip_address ipv6 s\<close> is the integer of the address written \<open>s\<close>
  (\<open>None\<close> when the constructor raises), \<open>network_str ipv6 a p\<close> the text of the network
  with base \<open>a\<close> and prefix length \<open>p\<close>.
\<close>

record ip_item =
  IP :: string
  Subnet :: int
  Item_Country :: string

record lib =
  sort_subnet :: "ip_item list \<Rightarrow> ip_item list"
  sort_country :: "cidr_row list \<Rightarrow> cidr_row list"
  ip_address :: "bool \<Rightarrow> string \<Rightarrow> int option"
  network_str :: "bool \<Rightarrow> int \<Rightarrow> nat \<Rightarrow> string"

definition sorts_by :: "('a \<Rightarrow> 'k::linorder) \<Rightarrow> ('a list \<Rightarrow> 'a list) \<Rightarrow> bool" where
  "sorts_by key srt = (\<forall>xs. mset (srt xs) = mset xs \<and> sorted (map key (srt xs)))"

definition lib_ok :: "lib \<Rightarrow> bool" where
  "lib_ok l = (sorts_by Subnet (sort_subnet l) \<and> sorts_by Country (sort_country l))"

text \<open>
  A frame built from an empty list of dictionaries has no columns, so sorting it by any
  column raises \<^verbatim>\<open>KeyError\<close>.
\<close>

definition sort_values :: "string \<Rightarrow> ('a list \<Rightarrow> 'a list) \<Rightarrow> 'a list \<Rightarrow> error + 'a list" where
  "sort_values col srt rows = (if rows = [] then Inl (KeyError col) else Inr (srt rows))"

text \<open>\<^verbatim>\<open>drop_duplicates\<close> keeps the first row of every key, in frame order.\<close>

fun drop_dups_from :: "'k list \<Rightarrow> ('a \<Rightarrow> 'k) \<Rightarrow> 'a list \<Rightarrow> 'a list" where
  "drop_dups_from seen key [] = []"
| "drop_dups_from seen key (x # xs) =
     (if key x \<in> set seen then drop_dups_from seen key xs
      else x # drop_dups_from (key x # seen) key xs)"

definition drop_duplicates :: "('a \<Rightarrow> 'k) \<Rightarrow> 'a list \<Rightarrow> 'a list" where
  "drop_duplicates key rows = drop_dups_from [] key rows"

section \<open>Deduplicator / Expander\<close>

text \<open>First loop of \<^verbatim>\<open>expand_df\<close>: the network text is cut at every \<^verbatim>\<open>/\<close>.\<close>

definition split_row :: "cidr_row \<Rightarrow> error + ip_item" where
  "split_row row =
     (let ip_arr = split_on CHR ''/'' (Network row) in
      case ip_arr of
        ip_addr # ip_subnet # _ \<Rightarrow>
          (case py_int ip_subnet of
             None \<Rightarrow> Inl ValueError
           | Some n \<Rightarrow> Inr \<lparr>IP = ip_addr, Subnet = n, Item_Country = Country row\<rparr>)
      | _ \<Rightarrow> Inl IndexError)"

fun split_rows :: "cidr_row list \<Rightarrow> error + ip_item list" where
  "split_rows [] = Inr []"
| "split_rows (row # rows) =
     (case split_row row of
        Inl e \<Rightarrow> Inl e
      | Inr item \<Rightarrow> (case split_rows rows of Inl e \<Rightarrow> Inl e | Inr items \<Rightarrow> Inr (item # items)))"

text \<open>Second loop: a dotted address with subnet 32 gets its fourth part zeroed.\<close>

definition extend_item :: "ip_item \<Rightarrow> error + ip_item" where
  "extend_item item =
     (if CHR ''.'' \<in> set (IP item) \<and> Subnet item = 32 then
        (let octets_arr = split_on CHR ''.'' (IP item) in
         if length octets_arr \<le> 3 then Inl IndexError
         else Inr \<lparr>IP = join ''.'' (octets_arr[3 := ''0'']), Subnet = 24,
                   Item_Country = Item_Country item\<rparr>)
      else Inr item)"

fun extend_items :: "ip_item list \<Rightarrow> error + ip_item list" where
  "extend_items [] = Inr []"
| "extend_items (item # items) =
     (case extend_item item of
        Inl e \<Rightarrow> Inl e
      | Inr x \<Rightarrow> (case extend_items items of Inl e \<Rightarrow> Inl e | Inr xs \<Rightarrow> Inr (x # xs)))"

text \<open>Third loop: the pair is put back together.\<close>

definition reassemble :: "ip_item \<Rightarrow> cidr_row" where
  "reassemble item =
     \<lparr>Network = IP item @ ''/'' @ py_str (Subnet item), Country = Item_Country item\<rparr>"

definition expand_df :: "lib \<Rightarrow> cidr_row list \<Rightarrow> error + cidr_row list" where
  "expand_df l df =
     (case split_rows df of
        Inl e \<Rightarrow> Inl e
      | Inr split_list \<Rightarrow>
          (case extend_items split_list of
             Inl e \<Rightarrow> Inl e
           | Inr extensive_list \<Rightarrow>
               (case sort_values ''Subnet'' (sort_subnet l) extensive_list of
                  Inl e \<Rightarrow> Inl e
                | Inr sorted_df \<Rightarrow>
                    (let tmp_df = drop_duplicates IP sorted_df;
                         result_list = map reassemble tmp_df
                     in sort_values ''Country'' (sort_country l) result_list))))"

text \<open>
  Two implementations of the sorts: one that keeps rows of equal key in frame order, and
  one that puts them in the opposite order. Both are sorts in the sense of \<open>sorts_by\<close>.
\<close>

definition stable_lib :: lib where
  "stable_lib =
     \<lparr>sort_subnet = sort_key Subnet, sort_country = sort_key Country,
      ip_address = (\<lambda>ipv6 s. None), network_str = (\<lambda>ipv6 a p. [])\<rparr>"

definition reversing_lib :: lib where
  "reversing_lib =
     \<lparr>sort_subnet = (\<lambda>xs. sort_key Subnet (rev xs)), sort_country = sort_key Country,
      ip_address = (\<lambda>ipv6 s. None), network_str = (\<lambda>ipv6 a p. [])\<rparr>"

section \<open>Geo-block adapter\<close>

text \<open>
  The number of binary digits of a natural number, and the integer nearest to it that
  a 64-bit float holds: 53 significant binary digits, ties to the even one. Overflow to
  infinity (from \<open>2 ^ 1024\<close> on) is not modelled.
\<close>

function bit_length :: "nat \<Rightarrow> nat" where
  "bit_length n = (if n = 0 then 0 else Suc (bit_length (n div 2)))"
  by pat_completeness auto
termination
  by (relation "measure id") auto

declare bit_length.simps [simp del]

definition float64_of_nat :: "nat \<Rightarrow> nat" where
  "float64_of_nat n =
     (if bit_length n \<le> 53 then n
      else (let e = bit_length n - 53; q = n div 2 ^ e; r = n mod 2 ^ e; half = 2 ^ (e - 1)
            in (if half < r \<or> (r = half \<and> odd q) then q + 1 else q) * 2 ^ e))"

definition float64_of_int :: "int \<Rightarrow> int" where
  "float64_of_int i =
     (if i < 0 then - int (float64_of_nat (nat (- i))) else int (float64_of_nat (nat i)))"

text \<open>
  Element-wise comparison of an identifier column with a number, and element-wise \<^verbatim>\<open>&\<close>.
  pandas reads a column of integers as \<^verbatim>\<open>int64\<close> and compares it exactly; as soon as one
  cell is empty the whole column is \<^verbatim>\<open>float64\<close>, every cell and the number compared with
  are rounded to a float, and an empty cell (NaN) equals nothing.
\<close>

definition series_eq :: "int option list \<Rightarrow> int \<Rightarrow> bool list" where
  "series_eq col v =
     (if None \<in> set col
      then map (\<lambda>c. map_option float64_of_int c = Some (float64_of_int v)) col
      else map (\<lambda>c. c = Some v) col)"

fun series_and :: "bool list \<Rightarrow> bool list \<Rightarrow> bool list" where
  "series_and (a # as) (b # bs) = (a \<and> b) # series_and as bs"
| "series_and _ _ = []"

text \<open>\<^verbatim>\<open>df.loc[mask]\<close>: the rows whose mask entry is true, in order.\<close>

fun loc_mask :: "'a list \<Rightarrow> bool list \<Rightarrow> 'a list" where
  "loc_mask (r # rs) (m # ms) = (if m then r # loc_mask rs ms else loc_mask rs ms)"
| "loc_mask _ _ = []"

text \<open>
  Dropping the five bookkeeping columns, renaming \<^verbatim>\<open>network\<close> to \<^verbatim>\<open>Network\<close> and assigning
  the constant column \<^verbatim>\<open>Country\<close>.
\<close>

definition drop_rename_stamp :: "string \<Rightarrow> block_row \<Rightarrow> cidr_row" where
  "drop_rename_stamp iso_code r = \<lparr>Network = network r, Country = iso_code\<rparr>"

definition extract_geolite2_cidr :: "string \<Rightarrow> int \<Rightarrow> string \<Rightarrow> cidr_row list io" where
  "extract_geolite2_cidr geolite2_ipblocks_csv geoid iso_code =
     then_io (open_file geolite2_ipblocks_csv) (\<lambda>f.
       case f of
         BlocksCsv ipblocks_df \<Rightarrow>
           (let extracted_df = loc_mask ipblocks_df
                  (series_and (series_eq (map geoname_id ipblocks_df) geoid)
                     (series_eq (map registered_country_geoname_id ipblocks_df) geoid))
            in return_io (map (drop_rename_stamp iso_code) extracted_df))
       | _ \<Rightarrow> raise_io (KeyError ''geoname_id''))"

section \<open>Range-to-CIDR converter\<close>

text \<open>
  Modelled from the spec: \<^verbatim>\<open>ipaddress.summarize_address_range\<close> is code of the Python
  standard library, not of this repository. The spec gives its algorithm: repeatedly
  take the largest power-of-two-aligned block that starts at the current lower bound
  and does not exceed the remaining range, emit it, and advance the lower bound past
  it, until the bound exceeds the end address. The definitions below follow the
  library's loop: the block size is bounded by the trailing zero bits of the lower
  bound and by the bit length of the number of addresses left, and the loop also stops
  when the block just emitted ends at the last address of the family. A network is the
  pair of its base address and its prefix length; \<open>bits\<close> is 32 or 128.
\<close>

definition count_righthand_zero_bits :: "int \<Rightarrow> nat \<Rightarrow> nat" where
  "count_righthand_zero_bits number bits =
     (if number = 0 then bits
      else min bits (bit_length (nat (NOT number AND (number - 1)))))"

function summarize_loop :: "nat \<Rightarrow> int \<Rightarrow> int \<Rightarrow> (int \<times> nat) list" where
  "summarize_loop bits first_int last_int =
     (if first_int \<le> last_int then
        (let nbits = min (count_righthand_zero_bits first_int bits)
                         (bit_length (nat (last_int - first_int + 1)) - 1);
             net = (first_int, bits - nbits);
             next_int = first_int + 2 ^ nbits
         in net # (if next_int - 1 = 2 ^ bits - 1 then []
                   else summarize_loop bits next_int last_int))
      else [])"
  by pat_completeness auto
termination
proof (relation "measure (\<lambda>(bits, first_int, last_int). nat (last_int + 1 - first_int))")
  show "wf (measure (\<lambda>(bits, first_int, last_int). nat (last_int + 1 - first_int)))" by simp
next
  fix bits :: nat and first_int last_int :: int and nbits net next_int
  assume "first_int \<le> last_int" and "next_int = first_int + 2 ^ nbits"
  moreover have "(0::int) < 2 ^ nbits" by simp
  ultimately show "((bits, next_int, last_int), (bits, first_int, last_int))
      \<in> measure (\<lambda>(bits, first_int, last_int). nat (last_int + 1 - first_int))"
    by simp
qed

declare summarize_loop.simps [simp del]

definition summarize_address_range :: "nat \<Rightarrow> int \<Rightarrow> int \<Rightarrow> error + (int \<times> nat) list" where
  "summarize_address_range bits first_ip last_ip =
     (if last_ip < first_ip then Inl ValueError else Inr (summarize_loop bits first_ip last_ip))"

text \<open>The addresses of a network: the block of \<open>2 ^ (bits - prefix)\<close> addresses from its base.\<close>

definition block_addresses :: "nat \<Rightarrow> int \<times> nat \<Rightarrow> int set" where
  "block_addresses bits net = {fst net ..< fst net + 2 ^ (bits - snd net)}"

definition max_prefixlen :: "bool \<Rightarrow> nat" where
  "max_prefixlen ipv6 = (if ipv6 then 128 else 32)"

text \<open>
  \<^verbatim>\<open>convert_iprange_to_cidr\<close>: every row is parsed, summarized and its networks are
  appended with the country of the row. The first row that fails ends the function.
\<close>

fun convert_iprange_to_cidr :: "lib \<Rightarrow> range_row list \<Rightarrow> bool \<Rightarrow> error + cidr_row list" where
  "convert_iprange_to_cidr l [] ipv6 = Inr []"
| "convert_iprange_to_cidr l (row # rows) ipv6 =
     (case ip_address l ipv6 (Range_Start row) of
        None \<Rightarrow> Inl AddressValueError
      | Some startip \<Rightarrow>
          (case ip_address l ipv6 (Range_End row) of
             None \<Rightarrow> Inl AddressValueError
           | Some endip \<Rightarrow>
               (case summarize_address_range (max_prefixlen ipv6) startip endip of
                  Inl e \<Rightarrow> Inl e
                | Inr current_cidr \<Rightarrow>
                    (case convert_iprange_to_cidr l rows ipv6 of
                       Inl e \<Rightarrow> Inl e
                     | Inr cidr_list \<Rightarrow>
                         Inr (map (\<lambda>item. \<lparr>Network = network_str l ipv6 (fst item) (snd item),
                                            Country = Range_Country row\<rparr>) current_cidr
                              @ cidr_list)))))"

text \<open>
  What is asked of the networks returned for the range from \<open>lo\<close> to \<open>hi\<close>: the first one
  starts at \<open>lo\<close>, is aligned to its size, ends within the range and is the largest such
  block; the next ones do the same from the address after it; the last one ends at
  \<open>hi\<close>.
\<close>

fun greedy_cover :: "nat \<Rightarrow> int \<Rightarrow> int \<Rightarrow> (int \<times> nat) list \<Rightarrow> bool" where
  "greedy_cover bits lo hi [] = (lo = hi + 1)"
| "greedy_cover bits lo hi (net # rest) =
     (fst net = lo \<and> snd net \<le> bits \<and> 2 ^ (bits - snd net) dvd fst net
      \<and> fst net + 2 ^ (bits - snd net) - 1 \<le> hi
      \<and> (\<forall>m \<le> bits. 2 ^ m dvd lo \<and> lo + 2 ^ m - 1 \<le> hi \<longrightarrow> m \<le> bits - snd net)
      \<and> greedy_cover bits (lo + 2 ^ (bits - snd net)) hi rest)"

text \<open>The rows that one row of the range table contributes, when both its addresses parse.\<close>

definition row_networks :: "lib \<Rightarrow> bool \<Rightarrow> range_row \<Rightarrow> cidr_row list" where
  "row_networks l ipv6 row =
     (case (ip_address l ipv6 (Range_Start row), ip_address l ipv6 (Range_End row)) of
        (Some startip, Some endip) \<Rightarrow>
          map (\<lambda>item. \<lparr>Network = network_str l ipv6 (fst item) (snd item),
                        Country = Range_Country row\<rparr>)
            (summarize_loop (max_prefixlen ipv6) startip endip)
      | _ \<Rightarrow> [])"

text \<open>
  An implementation of the two text conversions for IPv4 in plain dotted-quad
  notation, to run the converter on examples.
\<close>

definition dotted_quad_value :: "string \<Rightarrow> int option" where
  "dotted_quad_value s =
     (case map parse_digits (split_on CHR ''.'' s) of
        [Some a, Some b, Some c, Some d] \<Rightarrow>
          if a \<le> 255 \<and> b \<le> 255 \<and> c \<le> 255 \<and> d \<le> 255
          then Some (int (((a * 256 + b) * 256 + c) * 256 + d)) else None
      | _ \<Rightarrow> None)"

definition dotted_quad_text :: "int \<Rightarrow> string" where
  "dotted_quad_text a =
     join ''.'' (map (\<lambda>k. digits (nat (a div 256 ^ k mod 256))) [3, 2, 1, 0])"

definition ipv4_lib :: lib where
  "ipv4_lib =
     \<lparr>sort_subnet = sort_key Subnet, sort_country = sort_key Country,
      ip_address = (\<lambda>ipv6 s. if ipv6 then None else dotted_quad_value s),
      network_str = (\<lambda>ipv6 a p. dotted_quad_text a @ ''/'' @ digits p)\<rparr>"

section \<open>The other adapters\<close>

text \<open>
  \<^verbatim>\<open>load_dbip_csv\<close>: the rows of the requested country, split by whether the start
  address contains a colon. A file of another layout than the one a reader expects is
  outside the row types of the model; the model stops there with \<^verbatim>\<open>KeyError\<close> on the first
  column the reader uses.
\<close>

definition load_dbip_csv :: "string \<Rightarrow> string \<Rightarrow> (range_row list \<times> range_row list) io" where
  "load_dbip_csv file_path country_iso_code =
     then_io (open_file file_path) (\<lambda>f.
       case f of
         RangeCsv rows \<Rightarrow>
           (let df = filter (\<lambda>r. Range_Country r = country_iso_code) rows;
                df_ip4 = filter (\<lambda>r. CHR '':'' \<notin> set (Range_Start r)) df;
                df_ip6 = filter (\<lambda>r. CHR '':'' \<in> set (Range_Start r)) df
            in return_io (df_ip4, df_ip6))
       | _ \<Rightarrow> raise_io (KeyError ''Country''))"

definition extract_geo_id :: "string \<Rightarrow> string \<Rightarrow> int io" where
  "extract_geo_id geolite2_countries_file country =
     then_io (open_file geolite2_countries_file) (\<lambda>f.
       case f of
         LocationsCsv geoinfo_df \<Rightarrow>
           (case filter (\<lambda>r. country_name r = country) geoinfo_df of
              [] \<Rightarrow> raise_io IndexError
            | r # _ \<Rightarrow> return_io (loc_geoname_id r))
       | _ \<Rightarrow> raise_io (KeyError ''country_name''))"

definition load_geolite2_csv ::
  "string \<Rightarrow> string \<times> string \<Rightarrow> (cidr_row list \<times> cidr_row list) io" where
  "load_geolite2_csv dir_path geolocation =
     then_io (extract_geo_id (dir_path @ ''/GeoLite2-Country-Locations-en.csv'') (fst geolocation))
       (\<lambda>geo_id.
     then_io (extract_geolite2_cidr (dir_path @ ''/GeoLite2-Country-Blocks-IPv4.csv'') geo_id
                (snd geolocation)) (\<lambda>ipv4_df.
     then_io (extract_geolite2_cidr (dir_path @ ''/GeoLite2-Country-Blocks-IPv6.csv'') geo_id
                (snd geolocation)) (\<lambda>ipv6_df.
     return_io (ipv4_df, ipv6_df))))"

definition read_ito_db :: "string \<Rightarrow> cidr_row list io" where
  "read_ito_db xls_path =
     then_io (open_file xls_path) (\<lambda>f.
       case f of
         ItoXls cells \<Rightarrow> return_io (map (\<lambda>c. \<lparr>Network = c, Country = ''IR''\<rparr>) cells)
       | _ \<Rightarrow> raise_io (KeyError ''IPv4''))"

definition concat_df :: "cidr_row list \<Rightarrow> cidr_row list \<Rightarrow> cidr_row list" where
  "concat_df dst_df src_df = dst_df @ src_df"

section \<open>The run\<close>

definition is_file :: "world \<Rightarrow> string \<Rightarrow> bool" where
  "is_file w path = (case files w path of None \<Rightarrow> False | Some Directory \<Rightarrow> False | Some _ \<Rightarrow> True)"

text \<open>
  An optional per-country file: \<^verbatim>\<open>if Path(p).is_file(): df = pd.read_csv(p);
  aggregated = concat_df(aggregated, df)\<close>.
\<close>

definition read_cidr_csv :: "string \<Rightarrow> cidr_row list io" where
  "read_cidr_csv path =
     then_io (open_file path) (\<lambda>f.
       case f of CidrCsv rows \<Rightarrow> return_io rows | _ \<Rightarrow> raise_io (KeyError ''Network''))"

definition concat_if_file :: "string \<Rightarrow> cidr_row list \<Rightarrow> cidr_row list io" where
  "concat_if_file path aggregated =
     (\<lambda>w. if is_file w path
          then then_io (read_cidr_csv path) (\<lambda>df. return_io (concat_df aggregated df)) w
          else return_io aggregated w)"

definition export_dir_path :: string where "export_dir_path = ''./Aggregated_Data''"
definition data_dir_path :: string where "data_dir_path = ''./Data''"
definition geolite2_db_dir :: string where "geolite2_db_dir = data_dir_path @ ''/GeoLite2''"
definition autonomous_systems_db_dir :: string where
  "autonomous_systems_db_dir = data_dir_path @ ''/AS_CIDRs''"
definition manual_db_dir :: string where "manual_db_dir = data_dir_path @ ''/Manual''"
definition dbip_filename :: string where "dbip_filename = ''dbip-country-lite-2023-01.csv''"
definition ito_excel_filename :: string where "ito_excel_filename = ''Export-14011020215714.xls''"

definition geolocations :: "(string \<times> string) list" where
  "geolocations = [(''Iran'', ''IR''), (''China'', ''CN''), (''Russia'', ''RU'')]"

definition lift_result :: "error + 'a \<Rightarrow> 'a io" where
  "lift_result r = (case r of Inl e \<Rightarrow> raise_io e | Inr x \<Rightarrow> return_io x)"

text \<open>The body of the loop over the countries, on the two frames aggregated so far.\<close>

definition aggregate_geolocation ::
  "lib \<Rightarrow> string \<times> string \<Rightarrow> cidr_row list \<times> cidr_row list
     \<Rightarrow> (cidr_row list \<times> cidr_row list) io" where
  "aggregate_geolocation l geolocation aggregated =
     then_io (load_dbip_csv (data_dir_path @ ''/'' @ dbip_filename) (snd geolocation))
       (\<lambda>dbip.
     then_io (lift_result (convert_iprange_to_cidr l (fst dbip) False)) (\<lambda>dbip_ipv4.
     then_io (lift_result (convert_iprange_to_cidr l (snd dbip) True)) (\<lambda>dbip_ipv6.
     then_io (load_geolite2_csv geolite2_db_dir geolocation) (\<lambda>geolite2.
     then_io (concat_if_file
                (autonomous_systems_db_dir @ ''/ipv4_'' @ snd geolocation @ ''.csv'')
                (concat_df (concat_df (fst aggregated) dbip_ipv4) (fst geolite2)))
       (\<lambda>ipv4_as.
     then_io (concat_if_file
                (autonomous_systems_db_dir @ ''/ipv6_'' @ snd geolocation @ ''.csv'')
                (concat_df (concat_df (snd aggregated) dbip_ipv6) (snd geolite2)))
       (\<lambda>ipv6_as.
     then_io (concat_if_file (manual_db_dir @ ''/ipv4_'' @ snd geolocation @ ''.csv'') ipv4_as)
       (\<lambda>ipv4_manual.
     then_io (concat_if_file (manual_db_dir @ ''/ipv6_'' @ snd geolocation @ ''.csv'') ipv6_as)
       (\<lambda>ipv6_manual.
     if snd geolocation = ''IR''
     then then_io (read_ito_db (data_dir_path @ ''/'' @ ito_excel_filename)) (\<lambda>ito_df.
            return_io (concat_df ipv4_manual ito_df, ipv6_manual))
     else return_io (ipv4_manual, ipv6_manual)))))))))"

fun aggregate ::
  "lib \<Rightarrow> (string \<times> string) list \<Rightarrow> cidr_row list \<times> cidr_row list
     \<Rightarrow> (cidr_row list \<times> cidr_row list) io" where
  "aggregate l [] aggregated = return_io aggregated"
| "aggregate l (geolocation # rest) aggregated =
     then_io (aggregate_geolocation l geolocation aggregated) (aggregate l rest)"

text \<open>
  \<^verbatim>\<open>to_csv(path, index=False)\<close>: a header line and one line per row, no index column. A field
  that contains a comma, a double quote or a line break is put in double quotes with
  its double quotes doubled.
\<close>

definition csv_field :: "string \<Rightarrow> string" where
  "csv_field s =
     (if \<exists>c \<in> set s. c \<in> {CHR '','', CHR 0x22, CHR 0x0A, CHR 0x0D}
      then CHR 0x22 # concat (map (\<lambda>c. if c = CHR 0x22 then [c, c] else [c]) s) @ [CHR 0x22]
      else s)"

definition csv_line :: "cidr_row \<Rightarrow> string" where
  "csv_line row = csv_field (Network row) @ '','' @ csv_field (Country row)"

definition to_csv :: "cidr_row list \<Rightarrow> string list" where
  "to_csv df = ''Network,Country'' # map csv_line df"

definition makedirs :: "string \<Rightarrow> unit io" where
  "makedirs path = (\<lambda>w.
     case files w path of
       None \<Rightarrow> (Inr (), w\<lparr>made_dirs := made_dirs w @ [path]\<rparr>)
     | Some Directory \<Rightarrow> (Inr (), w)
     | Some _ \<Rightarrow> (Inl (FileExistsError path), w))"

definition write_file :: "string \<Rightarrow> string list \<Rightarrow> unit io" where
  "write_file path lines = (\<lambda>w. (Inr (), w\<lparr>written := written w @ [(path, lines)]\<rparr>))"

definition main :: "lib \<Rightarrow> unit io" where
  "main l = (\<lambda>w.
     if files w data_dir_path \<noteq> None then
       then_io (aggregate l geolocations ([], [])) (\<lambda>aggregated.
         (let aggregated_ipv4_df = drop_duplicates id (fst aggregated);
              aggregated_ipv6_df = drop_duplicates id (snd aggregated)
          in then_io (lift_result (expand_df l aggregated_ipv4_df)) (\<lambda>expanded_ipv4_df.
             (let aggregated_df = concat_df expanded_ipv4_df aggregated_ipv6_df
              in then_io (makedirs export_dir_path) (\<lambda>_.
                   write_file (export_dir_path @ ''/agg_cidrs.csv'') (to_csv aggregated_df)))))) w
     else raise_io (SystemExit 0) w)"

text \<open>
  The exit status of the process running \<^verbatim>\<open>main()\<close>: 0 when it returns, the argument of
  \<^verbatim>\<open>exit\<close> when that is called, 1 when another exception is left unhandled.
\<close>

definition exit_status :: "error + unit \<Rightarrow> int" where
  "exit_status r = (case r of Inr _ \<Rightarrow> 0 | Inl (SystemExit n) \<Rightarrow> n | Inl _ \<Rightarrow> 1)"

text \<open>
  The loop body without its four optional sources, to compare with: the range table,
  the geo-block tables and, for IR, the intranet registry only.
\<close>

definition aggregate_mandatory ::
  "lib \<Rightarrow> string \<times> string \<Rightarrow> cidr_row list \<times> cidr_row list
     \<Rightarrow> (cidr_row list \<times> cidr_row list) io" where
  "aggregate_mandatory l geolocation aggregated =
     then_io (load_dbip_csv (data_dir_path @ ''/'' @ dbip_filename) (snd geolocation))
       (\<lambda>dbip.
     then_io (lift_result (convert_iprange_to_cidr l (fst dbip) False)) (\<lambda>dbip_ipv4.
     then_io (lift_result (convert_iprange_to_cidr l (snd dbip) True)) (\<lambda>dbip_ipv6.
     then_io (load_geolite2_csv geolite2_db_dir geolocation) (\<lambda>geolite2.
     (let ipv4 = concat_df (concat_df (fst aggregated) dbip_ipv4) (fst geolite2);
          ipv6 = concat_df (concat_df (snd aggregated) dbip_ipv6) (snd geolite2)
      in if snd geolocation = ''IR''
         then then_io (read_ito_db (data_dir_path @ ''/'' @ ito_excel_filename)) (\<lambda>ito_df.
                return_io (concat_df ipv4 ito_df, ipv6))
         else return_io (ipv4, ipv6))))))"

definition optional_paths :: "string \<Rightarrow> string list" where
  "optional_paths iso_code =
     [autonomous_systems_db_dir @ ''/ipv4_'' @ iso_code @ ''.csv'',
      autonomous_systems_db_dir @ ''/ipv6_'' @ iso_code @ ''.csv'',
      manual_db_dir @ ''/ipv4_'' @ iso_code @ ''.csv'',
      manual_db_dir @ ''/ipv6_'' @ iso_code @ ''.csv'']"

text \<open>
  The whole loop without the optional sources, and two notions for reasoning about the
  run: a computation that only reads (it changes nothing of the world but its log of
  reads), and two computations that agree on every world with a given file system.
\<close>

fun aggregate_without_optional ::
  "lib \<Rightarrow> (string \<times> string) list \<Rightarrow> cidr_row list \<times> cidr_row list
     \<Rightarrow> (cidr_row list \<times> cidr_row list) io" where
  "aggregate_without_optional l [] aggregated = return_io aggregated"
| "aggregate_without_optional l (geolocation # rest) aggregated =
     then_io (aggregate_mandatory l geolocation aggregated) (aggregate_without_optional l rest)"

definition reads_only :: "'a io \<Rightarrow> bool" where
  "reads_only m = (\<forall>w. \<exists>ps. snd (m w) = w\<lparr>reads := reads w @ ps\<rparr>)"

definition agree_on :: "(string \<rightharpoonup> file_content) \<Rightarrow> 'a io \<Rightarrow> 'a io \<Rightarrow> bool" where
  "agree_on fs f g = (\<forall>w. files w = fs \<longrightarrow> f w = g w)"

text \<open>
  Three worlds to run the script in. In the first every mandatory input is present and
  none of the optional files is; the second adds an autonomous-system file for IR that
  repeats an IPv6 network of the geo-block table; in the third no source has an IPv4
  record.
\<close>

definition example_locations :: "location_row list" where
  "example_locations =
     [\<lparr>country_name = ''Iran'', loc_geoname_id = 130758\<rparr>,
      \<lparr>country_name = ''China'', loc_geoname_id = 1814991\<rparr>,
      \<lparr>country_name = ''Russia'', loc_geoname_id = 2017370\<rparr>]"

definition example_files :: "string \<rightharpoonup> file_content" where
  "example_files =
     [''./Data'' \<mapsto> Directory,
      ''./Data/dbip-country-lite-2023-01.csv'' \<mapsto>
        RangeCsv [\<lparr>Range_Start = ''1.0.0.0'', Range_End = ''1.0.0.255'',
                    Range_Country = ''AU''\<rparr>],
      ''./Data/GeoLite2/GeoLite2-Country-Locations-en.csv'' \<mapsto> LocationsCsv example_locations,
      ''./Data/GeoLite2/GeoLite2-Country-Blocks-IPv4.csv'' \<mapsto>
        BlocksCsv [\<lparr>network = ''2.144.0.0/14'', geoname_id = Some 130758,
                     registered_country_geoname_id = Some 130758,
                     represented_country_geoname_id = None,
                     is_anonymous_proxy = 0, is_satellite_provider = 0\<rparr>],
      ''./Data/GeoLite2/GeoLite2-Country-Blocks-IPv6.csv'' \<mapsto>
        BlocksCsv [\<lparr>network = ''2001:db8::/32'', geoname_id = Some 130758,
                     registered_country_geoname_id = Some 130758,
                     represented_country_geoname_id = None,
                     is_anonymous_proxy = 0, is_satellite_provider = 0\<rparr>],
      ''./Data/Export-14011020215714.xls'' \<mapsto> ItoXls [''5.1.2.3/32'']]"

definition example_world :: world where
  "example_world = \<lparr>files = example_files, reads = [], made_dirs = [], written = []\<rparr>"

definition duplicate_world :: world where
  "duplicate_world =
     \<lparr>files = example_files(''./Data/AS_CIDRs/ipv6_IR.csv'' \<mapsto>
                CidrCsv [\<lparr>Network = ''2001:db8::/32'', Country = ''IR''\<rparr>]),
      reads = [], made_dirs = [], written = []\<rparr>"

definition no_ipv4_world :: world where
  "no_ipv4_world =
     \<lparr>files = example_files(
        ''./Data/GeoLite2/GeoLite2-Country-Blocks-IPv4.csv'' \<mapsto> BlocksCsv [],
        ''./Data/Export-14011020215714.xls'' \<mapsto> ItoXls []),
      reads = [], made_dirs = [], written = []\<rparr>"




text \<open>
  The entries as they stand after the first two loops of \<^verbatim>\<open>expand_df\<close>, and the address
  part of a row of the result (the text before its first \<^verbatim>\<open>/\<close>).
\<close>

definition generalized :: "cidr_row list \<Rightarrow> error + ip_item list" where
  "generalized df =
     (case split_rows df of Inl e \<Rightarrow> Inl e | Inr split_list \<Rightarrow> extend_items split_list)"

definition base_address :: "cidr_row \<Rightarrow> string" where
  "base_address row = hd (split_on CHR ''/'' (Network row))"

section \<open>Properties\<close>












subsection \<open>Strings and numbers\<close>

lemma split_on_not_Nil: "split_on c s \<noteq> []"
  by (induction s) (auto split: list.splits)

lemma split_on_no_sep: "c \<notin> set p \<Longrightarrow> split_on c p = [p]"
  by (induction p) auto

lemma split_on_append_sep:
  "c \<notin> set p \<Longrightarrow> split_on c (p @ c # rest) = p # split_on c rest"
  by (induction p) (auto split: list.splits simp: split_on_not_Nil)

lemma split_on_quad:
  assumes "c \<notin> set p1" "c \<notin> set p2" "c \<notin> set p3" "c \<notin> set p4"
  shows "split_on c (join [c] [p1, p2, p3, p4]) = [p1, p2, p3, p4]"
  using assms by (simp add: split_on_append_sep split_on_no_sep)

lemma digit_char_simps:
  "digit_char 0 = CHR ''0''" "digit_char 1 = CHR ''1''" "digit_char 2 = CHR ''2''"
  "digit_char 3 = CHR ''3''" "digit_char 4 = CHR ''4''" "digit_char 5 = CHR ''5''"
  "digit_char 6 = CHR ''6''" "digit_char 7 = CHR ''7''" "digit_char 8 = CHR ''8''"
  "digit_char 9 = CHR ''9''" "digit_char (Suc 0) = CHR ''1''"
  by (simp_all add: digit_char_def char_of_eq_iff take_bit_eq_mod)

lemma digit_char_is_digit:
  "d < 10 \<Longrightarrow> is_digit (digit_char d) \<and> digit_val (digit_char d) = d"
  unfolding is_digit_def digit_val_def digit_char_def by simp

subsection \<open>Sorts\<close>

lemma sorts_by_single: "sorts_by key srt \<Longrightarrow> srt [x] = [x]"
  by (metis sorts_by_def mset_single_iff_right mset.simps)

lemma sort_values_single: "sorts_by key srt \<Longrightarrow> sort_values col srt [x] = Inr [x]"
  by (simp add: sort_values_def sorts_by_single)

lemma sorts_by_sort_key: "sorts_by key (sort_key key)"
  by (simp add: sorts_by_def)

lemma sorts_by_sort_key_rev: "sorts_by key (\<lambda>xs. sort_key key (rev xs))"
  by (simp add: sorts_by_def)

lemma lib_ok_stable_lib: "lib_ok stable_lib"
  by (simp add: lib_ok_def stable_lib_def sorts_by_sort_key)

lemma lib_ok_reversing_lib: "lib_ok reversing_lib"
  by (simp add: lib_ok_def reversing_lib_def sorts_by_sort_key sorts_by_sort_key_rev)

subsection \<open>The generalization step\<close>

lemma extend_item_quad:
  assumes "CHR ''.'' \<notin> set a" "CHR ''.'' \<notin> set b" "CHR ''.'' \<notin> set c" "CHR ''.'' \<notin> set d"
    and "IP item = join ''.'' [a, b, c, d]" and "Subnet item = 32"
  shows "extend_item item =
         Inr \<lparr>IP = join ''.'' [a, b, c, ''0''], Subnet = 24, Item_Country = Item_Country item\<rparr>"
proof -
  have "split_on CHR ''.'' (IP item) = [a, b, c, d]"
    using assms(1-4) unfolding assms(5) by (rule split_on_quad)
  moreover have "CHR ''.'' \<in> set (IP item)" unfolding assms(5) by simp
  ultimately show ?thesis using assms(6) by (simp add: extend_item_def)
qed

lemma extend_item_other: "Subnet item \<noteq> 32 \<Longrightarrow> extend_item item = Inr item"
  by (simp add: extend_item_def)

lemma expand_df_host_example:
  "lib_ok l \<Longrightarrow> expand_df l [\<lparr>Network = ''203.0.113.5/32'', Country = c\<rparr>]
     = Inr [\<lparr>Network = ''203.0.113.0/24'', Country = c\<rparr>]"
  by (simp add: expand_df_def split_row_def py_int_def strip_def is_space_def
      parse_digits_def is_digit_def digit_val_def extend_item_def lib_ok_def
      sort_values_single [where key = Subnet] sort_values_single [where key = Country]
      drop_duplicates_def reassemble_def py_str_def digits.simps digit_char_simps)

lemma extend_items_nth:
  "extend_items items = Inr out \<Longrightarrow>
   length out = length items \<and> (\<forall>i < length items. extend_item (items ! i) = Inr (out ! i))"
proof (induction items arbitrary: out)
  case Nil then show ?case by simp
next
  case (Cons x xs)
  from Cons.prems obtain y ys where y: "extend_item x = Inr y" "extend_items xs = Inr ys"
    "out = y # ys" by (auto split: sum.splits)
  from Cons.IH [OF y(2)] have IH: "length ys = length xs"
    "\<forall>i < length xs. extend_item (xs ! i) = Inr (ys ! i)" by simp_all
  show ?case unfolding y(3) using y(1) IH by (auto simp: nth_Cons split: nat.splits)
qed

lemma split_rows_nth:
  "split_rows df = Inr items \<Longrightarrow>
   length items = length df \<and> (\<forall>i < length df. split_row (df ! i) = Inr (items ! i))"
proof (induction df arbitrary: items)
  case Nil then show ?case by simp
next
  case (Cons x xs)
  from Cons.prems obtain y ys where y: "split_row x = Inr y" "split_rows xs = Inr ys"
    "items = y # ys" by (auto split: sum.splits)
  from Cons.IH [OF y(2)] have IH: "length ys = length xs"
    "\<forall>i < length xs. split_row (xs ! i) = Inr (ys ! i)" by simp_all
  show ?case unfolding y(3) using y(1) IH by (auto simp: nth_Cons split: nat.splits)
qed

lemma extend_items_total:
  "\<forall>it \<in> set items. Subnet it = 32 \<and> CHR ''.'' \<in> set (IP it)
       \<longrightarrow> 3 < length (split_on CHR ''.'' (IP it))
   \<Longrightarrow> \<exists>out. extend_items items = Inr out"
proof (induction items)
  case Nil then show ?case by simp
next
  case (Cons x xs)
  then obtain ys where ys: "extend_items xs = Inr ys" by auto
  from Cons.prems have "\<exists>y. extend_item x = Inr y"
    by (auto simp: extend_item_def Let_def)
  then obtain y where "extend_item x = Inr y" ..
  with ys show ?case by simp
qed

lemma py_int_32: "py_int ''32'' = Some 32"
  by (simp add: py_int_def strip_def is_space_def parse_digits_def is_digit_def digit_val_def)

lemma split_row_host:
  "Network row = ''203.0.113.5/32'' \<Longrightarrow>
   split_row row = Inr \<lparr>IP = ''203.0.113.5'', Subnet = 32, Item_Country = Country row\<rparr>"
  by (simp add: split_row_def py_int_32)

lemma extend_item_host:
  "extend_item \<lparr>IP = ''203.0.113.5'', Subnet = 32, Item_Country = c\<rparr>
   = Inr \<lparr>IP = ''203.0.113.0'', Subnet = 24, Item_Country = c\<rparr>"
  by (simp add: extend_item_def)

lemma generalized_host:
  assumes "generalized df = Inr G" and "i < length df" and "Network (df ! i) = ''203.0.113.5/32''"
  shows "G ! i = \<lparr>IP = ''203.0.113.0'', Subnet = 24, Item_Country = Country (df ! i)\<rparr>"
proof -
  from assms(1) obtain items where items: "split_rows df = Inr items" "extend_items items = Inr G"
    by (auto simp: generalized_def split: sum.splits)
  from split_rows_nth [OF items(1)] assms(2)
  have len: "length items = length df" and sr: "split_row (df ! i) = Inr (items ! i)" by simp_all
  from sr split_row_host [OF assms(3)]
  have it: "items ! i = \<lparr>IP = ''203.0.113.5'', Subnet = 32, Item_Country = Country (df ! i)\<rparr>"
    by simp
  from extend_items_nth [OF items(2)] assms(2) len
  have "extend_item (items ! i) = Inr (G ! i)" by simp
  then show ?thesis unfolding it extend_item_host by simp
qed

text \<open>
  C3. The generalization step, the second loop of \<^verbatim>\<open>expand_df\<close>, keeps the number and
  the order of the entries. Every entry whose address is a dotted quad and whose prefix
  length is 32 comes out with its fourth octet replaced by 0, prefix length 24 and the
  same country; every entry with another prefix length comes out as it went in. The
  loop succeeds whenever each dotted entry of prefix length 32 has at least four parts.
  An entry \<^verbatim>\<open>203.0.113.5/32\<close> at any position of the frame stands as \<^verbatim>\<open>203.0.113.0\<close> with
  prefix length 24 after the step, and alone in a frame it leaves \<^verbatim>\<open>expand_df\<close> as
  \<^verbatim>\<open>203.0.113.0/24\<close> with its country.
\<close>

theorem extend_items_generalizes:
  "(extend_items items = Inr out \<longrightarrow>
      length out = length items
      \<and> (\<forall>i < length items.
           (\<forall>a b c d. CHR ''.'' \<notin> set a \<and> CHR ''.'' \<notin> set b \<and> CHR ''.'' \<notin> set c
                \<and> CHR ''.'' \<notin> set d \<and> IP (items ! i) = join ''.'' [a, b, c, d]
                \<and> Subnet (items ! i) = 32
              \<longrightarrow> out ! i = \<lparr>IP = join ''.'' [a, b, c, ''0''], Subnet = 24,
                              Item_Country = Item_Country (items ! i)\<rparr>)
           \<and> (Subnet (items ! i) \<noteq> 32 \<longrightarrow> out ! i = items ! i)))
   \<and> ((\<forall>it \<in> set items. Subnet it = 32 \<and> CHR ''.'' \<in> set (IP it)
           \<longrightarrow> 3 < length (split_on CHR ''.'' (IP it)))
        \<longrightarrow> (\<exists>res. extend_items items = Inr res))
   \<and> (generalized df = Inr G \<longrightarrow>
        (\<forall>i < length df. Network (df ! i) = ''203.0.113.5/32''
           \<longrightarrow> G ! i = \<lparr>IP = ''203.0.113.0'', Subnet = 24, Item_Country = Country (df ! i)\<rparr>))
   \<and> (lib_ok l \<longrightarrow> expand_df l [\<lparr>Network = ''203.0.113.5/32'', Country = country\<rparr>]
         = Inr [\<lparr>Network = ''203.0.113.0/24'', Country = country\<rparr>])"
proof (intro conjI impI allI)
  assume run: "extend_items items = Inr out"
  from extend_items_nth [OF run] show "length out = length items" by simp
next
  fix i a b c d
  assume run: "extend_items items = Inr out" and i: "i < length items"
    and q: "CHR ''.'' \<notin> set a \<and> CHR ''.'' \<notin> set b \<and> CHR ''.'' \<notin> set c
                \<and> CHR ''.'' \<notin> set d \<and> IP (items ! i) = join ''.'' [a, b, c, d]
                \<and> Subnet (items ! i) = 32"
  from extend_items_nth [OF run] i have "extend_item (items ! i) = Inr (out ! i)" by simp
  moreover from q have "extend_item (items ! i) =
     Inr \<lparr>IP = join ''.'' [a, b, c, ''0''], Subnet = 24, Item_Country = Item_Country (items ! i)\<rparr>"
    by (intro extend_item_quad) simp_all
  ultimately show "out ! i = \<lparr>IP = join ''.'' [a, b, c, ''0''], Subnet = 24,
                              Item_Country = Item_Country (items ! i)\<rparr>" by simp
next
  fix i
  assume run: "extend_items items = Inr out" and i: "i < length items"
    and n: "Subnet (items ! i) \<noteq> 32"
  from extend_items_nth [OF run] i have "extend_item (items ! i) = Inr (out ! i)" by simp
  with extend_item_other [OF n] show "out ! i = items ! i" by simp
next
  assume "\<forall>it \<in> set items. Subnet it = 32 \<and> CHR ''.'' \<in> set (IP it)
           \<longrightarrow> 3 < length (split_on CHR ''.'' (IP it))"
  then show "\<exists>res. extend_items items = Inr res" by (rule extend_items_total)
next
  fix i
  assume "generalized df = Inr G" "i < length df" "Network (df ! i) = ''203.0.113.5/32''"
  then show "G ! i = \<lparr>IP = ''203.0.113.0'', Subnet = 24, Item_Country = Country (df ! i)\<rparr>"
    by (rule generalized_host)
next
  assume "lib_ok l"
  then show "expand_df l [\<lparr>Network = ''203.0.113.5/32'', Country = country\<rparr>]
         = Inr [\<lparr>Network = ''203.0.113.0/24'', Country = country\<rparr>]"
    by (rule expand_df_host_example)
qed

lemma py_int_24: "py_int ''24'' = Some 24"
  by (simp add: py_int_def strip_def is_space_def parse_digits_def is_digit_def digit_val_def)

theorem extend_items_generalizes_witness:
  "extend_items [\<lparr>IP = ''198.51.100.0'', Subnet = 24, Item_Country = ''IR''\<rparr>,
                 \<lparr>IP = ''203.0.113.5'', Subnet = 32, Item_Country = ''CN''\<rparr>]
     = Inr [\<lparr>IP = ''198.51.100.0'', Subnet = 24, Item_Country = ''IR''\<rparr>,
            \<lparr>IP = ''203.0.113.0'', Subnet = 24, Item_Country = ''CN''\<rparr>]
   \<and> generalized [\<lparr>Network = ''198.51.100.0/24'', Country = ''IR''\<rparr>,
                  \<lparr>Network = ''203.0.113.5/32'', Country = ''CN''\<rparr>]
     = Inr [\<lparr>IP = ''198.51.100.0'', Subnet = 24, Item_Country = ''IR''\<rparr>,
            \<lparr>IP = ''203.0.113.0'', Subnet = 24, Item_Country = ''CN''\<rparr>]
   \<and> expand_df stable_lib [\<lparr>Network = ''203.0.113.5/32'', Country = ''CN''\<rparr>]
     = Inr [\<lparr>Network = ''203.0.113.0/24'', Country = ''CN''\<rparr>]"
proof -
  let ?items = "[\<lparr>IP = ''198.51.100.0'', Subnet = 24, Item_Country = ''IR''\<rparr>,
                 \<lparr>IP = ''203.0.113.5'', Subnet = 32, Item_Country = ''CN''\<rparr>]"
  let ?df = "[\<lparr>Network = ''198.51.100.0/24'', Country = ''IR''\<rparr>,
              \<lparr>Network = ''203.0.113.5/32'', Country = ''CN''\<rparr>]"
  have total: "\<forall>it \<in> set ?items. Subnet it = 32 \<and> CHR ''.'' \<in> set (IP it)
           \<longrightarrow> 3 < length (split_on CHR ''.'' (IP it))" by simp
  have gen: "\<exists>G. generalized ?df = Inr G"
    by (simp add: generalized_def split_row_def py_int_24 py_int_32 extend_item_def)
  then obtain G where G: "generalized ?df = Inr G" ..
  note t = extend_items_generalizes [of ?items _ ?df G stable_lib "''CN''"]
  from t [THEN conjunct2, THEN conjunct1, THEN mp, OF total]
  obtain res where res: "extend_items ?items = Inr res" ..
  note t' = extend_items_generalizes [of ?items res ?df G stable_lib "''CN''"]
  note A = t' [THEN conjunct1, THEN mp, OF res]
  from A have len: "length res = 2" by simp
  note B0 = A [THEN conjunct2, THEN spec, of 0, THEN mp]
  note B1 = A [THEN conjunct2, THEN spec, of 1, THEN mp]
  have "res ! 0 = ?items ! 0"
    by (rule B0 [THEN conjunct2, THEN mp]) simp_all
  then have r0: "res ! 0 = \<lparr>IP = ''198.51.100.0'', Subnet = 24, Item_Country = ''IR''\<rparr>"
    by simp
  have "res ! 1 = \<lparr>IP = join ''.'' [''203'', ''0'', ''113'', ''0''], Subnet = 24,
                              Item_Country = Item_Country (?items ! 1)\<rparr>"
    by (rule B1 [THEN conjunct1, THEN spec, THEN spec, THEN spec, THEN spec, THEN mp,
          of "''203''" "''0''" "''113''" "''5''"]) simp_all
  then have r1: "res ! 1 = \<lparr>IP = ''203.0.113.0'', Subnet = 24, Item_Country = ''CN''\<rparr>" by simp
  from len obtain x y where xy: "res = [x, y]"
    by (cases res; cases "tl res") auto
  from r0 r1 xy have resv: "res = [\<lparr>IP = ''198.51.100.0'', Subnet = 24, Item_Country = ''IR''\<rparr>,
            \<lparr>IP = ''203.0.113.0'', Subnet = 24, Item_Country = ''CN''\<rparr>]" by simp
  have run: "extend_items ?items = Inr [\<lparr>IP = ''198.51.100.0'', Subnet = 24, Item_Country = ''IR''\<rparr>,
            \<lparr>IP = ''203.0.113.0'', Subnet = 24, Item_Country = ''CN''\<rparr>]"
    using res unfolding resv .
  have "G ! 1 = \<lparr>IP = ''203.0.113.0'', Subnet = 24, Item_Country = Country (?df ! 1)\<rparr>"
    by (rule t' [THEN conjunct2, THEN conjunct2, THEN conjunct1, THEN mp, OF G, THEN spec,
          THEN mp, THEN mp]) simp_all
  have gen': "generalized ?df = Inr [\<lparr>IP = ''198.51.100.0'', Subnet = 24, Item_Country = ''IR''\<rparr>,
            \<lparr>IP = ''203.0.113.0'', Subnet = 24, Item_Country = ''CN''\<rparr>]"
    by (simp add: generalized_def split_row_def py_int_24 py_int_32 extend_item_def)
  have ex: "expand_df stable_lib [\<lparr>Network = ''203.0.113.5/32'', Country = ''CN''\<rparr>]
     = Inr [\<lparr>Network = ''203.0.113.0/24'', Country = ''CN''\<rparr>]"
    by (rule t' [THEN conjunct2, THEN conjunct2, THEN conjunct2, THEN mp, OF lib_ok_stable_lib])
  show ?thesis by (intro conjI) (rule run gen' ex)+
qed

subsection \<open>Dropping duplicates\<close>

lemma drop_dups_from_keys:
  "key ` set (drop_dups_from seen key xs) = key ` set xs - set seen"
  by (induction xs arbitrary: seen) auto

lemma drop_dups_from_distinct:
  "distinct (map key (drop_dups_from seen key xs))"
  by (induction xs arbitrary: seen) (auto simp: drop_dups_from_keys)

lemma drop_dups_from_id:
  "distinct (map key xs) \<Longrightarrow> key ` set xs \<inter> set seen = {} \<Longrightarrow> drop_dups_from seen key xs = xs"
  by (induction xs arbitrary: seen) auto

lemma drop_dups_from_subset: "set (drop_dups_from seen key xs) \<subseteq> set xs"
  by (induction xs arbitrary: seen) auto

lemma filter_key_drop_dups:
  "filter (\<lambda>x. key x = a) (drop_dups_from seen key xs) =
   (if a \<in> set seen then []
    else (case find (\<lambda>x. key x = a) xs of None \<Rightarrow> [] | Some x \<Rightarrow> [x]))"
proof (induction xs arbitrary: seen)
  case Nil then show ?case by simp
next
  case (Cons y ys)
  show ?case using Cons.IH [of seen] Cons.IH [of "key y # seen"]
    by (auto split: option.splits)
qed

lemma filter_key_drop_duplicates:
  "filter (\<lambda>x. key x = a) (drop_duplicates key xs) =
   (case find (\<lambda>x. key x = a) xs of None \<Rightarrow> [] | Some x \<Rightarrow> [x])"
  by (simp add: drop_duplicates_def filter_key_drop_dups)

lemma sorted_find_least:
  assumes "sorted (map f xs)" "find P xs = Some x" "y \<in> set xs" "P y"
  shows "f x \<le> f y"
proof -
  from assms(2) obtain i where i: "i < length xs" "x = xs ! i" "\<forall>j<i. \<not> P (xs ! j)"
    by (auto simp: find_Some_iff)
  from assms(3) obtain j where j: "j < length xs" "y = xs ! j"
    by (auto simp: in_set_conv_nth)
  from i(3) j assms(4) have "i \<le> j" by (meson not_le_imp_less)
  with assms(1) j(1) have "map f xs ! i \<le> map f xs ! j"
    by (simp add: sorted_iff_nth_mono)
  with i j \<open>i \<le> j\<close> show ?thesis by simp
qed

lemma find_in_set: "find P xs = Some x \<Longrightarrow> x \<in> set xs \<and> P x"
  by (auto simp: find_Some_iff)

lemma find_exists: "y \<in> set xs \<Longrightarrow> P y \<Longrightarrow> \<exists>x. find P xs = Some x"
  by (cases "find P xs") (auto simp: find_None_iff)

lemma find_as_filter: "find P xs = (case filter P xs of [] \<Rightarrow> None | x # _ \<Rightarrow> Some x)"
  by (induction xs) auto

lemma find_stable:
  assumes "find P (sort_key f xs) = Some g"
  shows "find (\<lambda>x. P x \<and> f x = f g) xs = Some g"
proof -
  have a: "filter (\<lambda>x. P x \<and> f x = f g) xs = filter P (filter (\<lambda>x. f x = f g) xs)"
    by (simp add: conj_commute)
  have b: "filter (\<lambda>x. f x = f g) xs = filter (\<lambda>x. f x = f g) (sort_key f xs)"
    by (simp add: sort_key_stable)
  have c: "filter P (filter (\<lambda>x. f x = f g) (sort_key f xs))
         = filter (\<lambda>x. f x = f g) (filter P (sort_key f xs))"
    by (simp add: conj_commute)
  from assms obtain rest where d: "filter P (sort_key f xs) = g # rest"
    by (auto simp: find_as_filter split: list.splits)
  show ?thesis
    unfolding find_as_filter [of "\<lambda>x. P x \<and> f x = f g"] a b c d by simp
qed

subsection \<open>Addresses contain no slash\<close>

lemma split_on_parts_no_sep: "p \<in> set (split_on c s) \<Longrightarrow> c \<notin> set p"
  by (induction s arbitrary: p) (auto split: if_splits list.splits)

lemma split_on_chars: "\<Union> (set ` set (split_on c s)) \<subseteq> set s"
proof (induction s)
  case Nil then show ?case by simp
next
  case (Cons x xs)
  obtain p ps where ps: "split_on c xs = p # ps"
    using split_on_not_Nil [of c xs] by (cases "split_on c xs") auto
  with Cons show ?case by auto
qed

lemma split_on_parts_chars: "p \<in> set (split_on c s) \<Longrightarrow> set p \<subseteq> set s"
  using split_on_chars [of c s] by blast

lemma set_join: "set (join sep ps) \<subseteq> set sep \<union> \<Union> (set ` set ps)"
  by (induction sep ps rule: join.induct) auto

lemma split_row_no_slash: "split_row row = Inr item \<Longrightarrow> CHR ''/'' \<notin> set (IP item)"
proof -
  assume a: "split_row row = Inr item"
  then obtain rest where "split_on CHR ''/'' (Network row) = IP item # rest"
    by (auto simp: split_row_def split: list.splits option.splits)
  then have "IP item \<in> set (split_on CHR ''/'' (Network row))" by simp
  then show ?thesis by (rule split_on_parts_no_sep)
qed

lemma extend_item_no_slash:
  assumes "extend_item item = Inr x" "CHR ''/'' \<notin> set (IP item)"
  shows "CHR ''/'' \<notin> set (IP x)"
proof (cases "CHR ''.'' \<in> set (IP item) \<and> Subnet item = 32")
  case False
  with assms show ?thesis by (simp add: extend_item_def)
next
  case True
  let ?parts = "split_on CHR ''.'' (IP item)"
  from True assms(1) have ip: "IP x = join ''.'' (?parts[3 := ''0''])"
    by (auto simp: extend_item_def Let_def split: if_splits)
  have "\<Union> (set ` set (?parts[3 := ''0''])) \<subseteq> set ''0'' \<union> \<Union> (set ` set ?parts)"
    using set_update_subset_insert [of ?parts 3 "''0''"] by auto
  also have "\<dots> \<subseteq> set ''0'' \<union> set (IP item)"
    using split_on_parts_chars [of _ "CHR ''.''" "IP item"] by auto
  finally have "set (IP x) \<subseteq> set ''.'' \<union> (set ''0'' \<union> set (IP item))"
    unfolding ip using set_join [of "''.''" "?parts[3 := ''0'']"] by blast
  with assms(2) show ?thesis by auto
qed

lemma split_rows_no_slash:
  "split_rows df = Inr items \<Longrightarrow> \<forall>i \<in> set items. CHR ''/'' \<notin> set (IP i)"
  by (induction df arbitrary: items)
     (auto split: sum.splits dest: split_row_no_slash)

lemma extend_items_no_slash:
  "extend_items items = Inr G \<Longrightarrow> \<forall>i \<in> set items. CHR ''/'' \<notin> set (IP i)
   \<Longrightarrow> \<forall>g \<in> set G. CHR ''/'' \<notin> set (IP g)"
  by (induction items arbitrary: G)
     (auto split: sum.splits dest: extend_item_no_slash)

lemma generalized_no_slash:
  "generalized df = Inr G \<Longrightarrow> g \<in> set G \<Longrightarrow> CHR ''/'' \<notin> set (IP g)"
  using split_rows_no_slash extend_items_no_slash
  by (fastforce simp: generalized_def split: sum.splits)

lemma base_address_reassemble:
  "CHR ''/'' \<notin> set (IP g) \<Longrightarrow> base_address (reassemble g) = IP g"
  by (simp add: base_address_def reassemble_def split_on_append_sep)

subsection \<open>What survives the deduplication\<close>

lemma expand_df_unfold:
  assumes "expand_df l df = Inr out"
  obtains G where "generalized df = Inr G" "G \<noteq> []"
    "out = sort_country l (map reassemble (drop_duplicates IP (sort_subnet l G)))"
    "map reassemble (drop_duplicates IP (sort_subnet l G)) \<noteq> []"
  using assms
  by (auto simp: expand_df_def generalized_def sort_values_def Let_def
           split: sum.splits if_splits)

lemma mset_single_list: "mset xs = {#x#} \<Longrightarrow> xs = [x]"
  by (cases xs) auto

lemma filter_perm:
  assumes "mset out = mset ys"
  shows "mset (filter P out) = mset (filter P ys)"
  using assms by (metis mset_filter)

lemma expand_df_survivors:
  assumes ok: "lib_ok l" and run: "expand_df l df = Inr out"
  shows "\<exists>G. generalized df = Inr G \<and> G \<noteq> []
    \<and> mset (sort_subnet l G) = mset G \<and> sorted (map Subnet (sort_subnet l G))
    \<and> mset out = mset (map reassemble (drop_duplicates IP (sort_subnet l G)))
    \<and> sorted (map Country out)
    \<and> (\<forall>a. filter (\<lambda>r. base_address r = a) out =
       (case find (\<lambda>x. IP x = a) (sort_subnet l G) of None \<Rightarrow> [] | Some g \<Rightarrow> [reassemble g]))"
proof -
  from run obtain G where G: "generalized df = Inr G" "G \<noteq> []"
    "out = sort_country l (map reassemble (drop_duplicates IP (sort_subnet l G)))"
    by (rule expand_df_unfold)
  let ?S = "sort_subnet l G"
  let ?K = "drop_duplicates IP ?S"
  from ok have S: "mset ?S = mset G" "sorted (map Subnet ?S)"
    by (simp_all add: lib_ok_def sorts_by_def)
  from ok G(3) have out: "mset out = mset (map reassemble ?K)" "sorted (map Country out)"
    by (simp_all add: lib_ok_def sorts_by_def)
  have K_sub: "set ?K \<subseteq> set G"
    using drop_dups_from_subset [of "[]" IP ?S] S(1) 
    by (metis drop_duplicates_def mset_eq_setD)
  have flt: "filter (\<lambda>r. base_address r = a) out =
       (case find (\<lambda>x. IP x = a) ?S of None \<Rightarrow> [] | Some g \<Rightarrow> [reassemble g])" for a
  proof -
    have "filter (\<lambda>r. base_address r = a) (map reassemble ?K)
          = map reassemble (filter (\<lambda>k. base_address (reassemble k) = a) ?K)"
      by (simp add: filter_map comp_def)
    also have "filter (\<lambda>k. base_address (reassemble k) = a) ?K = filter (\<lambda>k. IP k = a) ?K"
    proof (rule filter_cong [OF refl])
      fix k assume "k \<in> set ?K"
      with K_sub have "k \<in> set G" by blast
      from generalized_no_slash [OF G(1) this]
      show "(base_address (reassemble k) = a) = (IP k = a)"
        by (simp add: base_address_reassemble)
    qed
    also have "\<dots> = (case find (\<lambda>x. IP x = a) ?S of None \<Rightarrow> [] | Some x \<Rightarrow> [x])"
      by (rule filter_key_drop_duplicates)
    finally have eq: "filter (\<lambda>r. base_address r = a) (map reassemble ?K)
        = (case find (\<lambda>x. IP x = a) ?S of None \<Rightarrow> [] | Some g \<Rightarrow> [reassemble g])"
      by (simp split: option.splits)
    have "mset (filter (\<lambda>r. base_address r = a) out)
        = mset (filter (\<lambda>r. base_address r = a) (map reassemble ?K))"
      using out(1) by (rule filter_perm)
    then have m: "mset (filter (\<lambda>r. base_address r = a) out)
        = mset (case find (\<lambda>x. IP x = a) ?S of None \<Rightarrow> [] | Some g \<Rightarrow> [reassemble g])"
      unfolding eq .
    show ?thesis
    proof (cases "find (\<lambda>x. IP x = a) ?S")
      case None
      with m show ?thesis by simp
    next
      case (Some g)
      with m have "mset (filter (\<lambda>r. base_address r = a) out) = {#reassemble g#}" by simp
      from mset_single_list [OF this] Some show ?thesis by simp
    qed
  qed
  from G(1,2) S out flt show ?thesis by blast
qed

lemma expand_df_total:
  assumes "lib_ok l" "generalized df = Inr G" "G \<noteq> []"
  shows "\<exists>out. expand_df l df = Inr out"
proof -
  from assms(1) have "mset (sort_subnet l G) = mset G" by (simp add: lib_ok_def sorts_by_def)
  with assms(3) have "sort_subnet l G \<noteq> []" by (metis mset_zero_iff)
  then obtain x xs where "sort_subnet l G = x # xs" by (cases "sort_subnet l G") auto
  then have "map reassemble (drop_duplicates IP (sort_subnet l G)) \<noteq> []"
    by (simp add: drop_duplicates_def)
  with assms(2,3) show ?thesis
    by (auto simp: expand_df_def generalized_def sort_values_def Let_def split: sum.splits)
qed

lemma expand_df_least_specific:
  assumes ok: "lib_ok l" and run: "expand_df l df = Inr out"
  shows "\<exists>G. generalized df = Inr G
     \<and> (\<forall>r \<in> set out. base_address r \<in> IP ` set G)
     \<and> (\<forall>a \<in> IP ` set G. \<exists>g \<in> set G. IP g = a
           \<and> (\<forall>g' \<in> set G. IP g' = a \<longrightarrow> Subnet g \<le> Subnet g')
           \<and> filter (\<lambda>r. base_address r = a) out = [reassemble g]
           \<and> find (\<lambda>x. IP x = a) (sort_subnet l G) = Some g)"
proof -
  from expand_df_survivors [OF ok run] obtain G where G: "generalized df = Inr G" "G \<noteq> []"
    "mset (sort_subnet l G) = mset G" "sorted (map Subnet (sort_subnet l G))"
    "mset out = mset (map reassemble (drop_duplicates IP (sort_subnet l G)))"
    "sorted (map Country out)"
    and flt: "\<And>a. filter (\<lambda>r. base_address r = a) out =
       (case find (\<lambda>x. IP x = a) (sort_subnet l G) of None \<Rightarrow> [] | Some g \<Rightarrow> [reassemble g])"
    by blast
  let ?S = "sort_subnet l G"
  have setS: "set ?S = set G" using G(3) by (rule mset_eq_setD)
  have rows: "\<forall>r \<in> set out. base_address r \<in> IP ` set G"
  proof
    fix r assume r: "r \<in> set out"
    then have "r \<in> set (filter (\<lambda>x. base_address x = base_address r) out)" by simp
    then obtain g where "find (\<lambda>x. IP x = base_address r) ?S = Some g"
      unfolding flt by (cases "find (\<lambda>x. IP x = base_address r) ?S") auto
    from find_in_set [OF this] setS have "g \<in> set G" "IP g = base_address r" by auto
    then show "base_address r \<in> IP ` set G" by (metis imageI)
  qed
  have addrs: "\<forall>a \<in> IP ` set G. \<exists>g \<in> set G. IP g = a
           \<and> (\<forall>g' \<in> set G. IP g' = a \<longrightarrow> Subnet g \<le> Subnet g')
           \<and> filter (\<lambda>r. base_address r = a) out = [reassemble g]
           \<and> find (\<lambda>x. IP x = a) ?S = Some g"
  proof
    fix a assume "a \<in> IP ` set G"
    then obtain y where y: "y \<in> set ?S" "IP y = a" using setS by auto
    from find_exists [of y ?S "\<lambda>x. IP x = a", OF y] obtain g
      where g: "find (\<lambda>x. IP x = a) ?S = Some g" by blast
    from find_in_set [OF g] setS have gG: "g \<in> set G" "IP g = a" by auto
    have least: "\<forall>g' \<in> set G. IP g' = a \<longrightarrow> Subnet g \<le> Subnet g'"
      using sorted_find_least [OF G(4) g] setS by blast
    have "filter (\<lambda>r. base_address r = a) out = [reassemble g]"
      unfolding flt g by simp
    with gG least g show "\<exists>g \<in> set G. IP g = a
           \<and> (\<forall>g' \<in> set G. IP g' = a \<longrightarrow> Subnet g \<le> Subnet g')
           \<and> filter (\<lambda>r. base_address r = a) out = [reassemble g]
           \<and> find (\<lambda>x. IP x = a) ?S = Some g" by blast
  qed
  from G(1) rows addrs show ?thesis by blast
qed

subsection \<open>Conflict resolution\<close>

lemma py_int_28: "py_int ''28'' = Some 28"
  by (simp add: py_int_def strip_def is_space_def parse_digits_def is_digit_def digit_val_def)

lemma generalized_pair_24_28:
  assumes "map Network df = [''198.51.100.0/24'', ''198.51.100.0/28'']
         \<or> map Network df = [''198.51.100.0/28'', ''198.51.100.0/24'']"
  shows "\<exists>c1 c2 G. generalized df = Inr G
       \<and> set G = {\<lparr>IP = ''198.51.100.0'', Subnet = 24, Item_Country = c1\<rparr>,
                     \<lparr>IP = ''198.51.100.0'', Subnet = 28, Item_Country = c2\<rparr>}"
proof -
  from assms obtain r1 r2 where df: "df = [r1, r2]"
    by (cases df; cases "tl df") auto
  from assms have "generalized df = Inr [\<lparr>IP = ''198.51.100.0'', Subnet = 24, Item_Country = Country r1\<rparr>,
                     \<lparr>IP = ''198.51.100.0'', Subnet = 28, Item_Country = Country r2\<rparr>]
       \<or> generalized df = Inr [\<lparr>IP = ''198.51.100.0'', Subnet = 28, Item_Country = Country r1\<rparr>,
                     \<lparr>IP = ''198.51.100.0'', Subnet = 24, Item_Country = Country r2\<rparr>]"
    unfolding df
    by (auto simp: generalized_def split_row_def py_int_24 py_int_28 extend_item_def)
  then show ?thesis
  proof
    assume a: "generalized df = Inr [\<lparr>IP = ''198.51.100.0'', Subnet = 24, Item_Country = Country r1\<rparr>,
                     \<lparr>IP = ''198.51.100.0'', Subnet = 28, Item_Country = Country r2\<rparr>]"
    show ?thesis
      by (rule exI [of _ "Country r1"], rule exI [of _ "Country r2"], rule exI, rule conjI, rule a)
         simp
  next
    assume a: "generalized df = Inr [\<lparr>IP = ''198.51.100.0'', Subnet = 28, Item_Country = Country r1\<rparr>,
                     \<lparr>IP = ''198.51.100.0'', Subnet = 24, Item_Country = Country r2\<rparr>]"
    show ?thesis
      by (rule exI [of _ "Country r2"], rule exI [of _ "Country r1"], rule exI, rule conjI, rule a)
         (simp add: insert_commute)
  qed
qed

lemma expand_df_pair_24_28:
  assumes ok: "lib_ok l" and run: "expand_df l df = Inr out"
    and df: "map Network df = [''198.51.100.0/24'', ''198.51.100.0/28'']
         \<or> map Network df = [''198.51.100.0/28'', ''198.51.100.0/24'']"
  shows "map Network out = [''198.51.100.0/24'']"
proof -
  from expand_df_least_specific [OF ok run] obtain G where G: "generalized df = Inr G"
    and rows: "\<forall>r \<in> set out. base_address r \<in> IP ` set G"
    and addrs: "\<forall>a \<in> IP ` set G. \<exists>g \<in> set G. IP g = a
           \<and> (\<forall>g' \<in> set G. IP g' = a \<longrightarrow> Subnet g \<le> Subnet g')
           \<and> filter (\<lambda>r. base_address r = a) out = [reassemble g]
           \<and> find (\<lambda>x. IP x = a) (sort_subnet l G) = Some g"
    by blast
  from generalized_pair_24_28 [OF df] obtain c1 c2 G' where
    G': "generalized df = Inr G'" and
    setG': "set G' = {\<lparr>IP = ''198.51.100.0'', Subnet = 24, Item_Country = c1\<rparr>,
                     \<lparr>IP = ''198.51.100.0'', Subnet = 28, Item_Country = c2\<rparr>}"
    by blast
  from G G' have "G' = G" by simp
  with setG' have setG: "set G = {\<lparr>IP = ''198.51.100.0'', Subnet = 24, Item_Country = c1\<rparr>,
                     \<lparr>IP = ''198.51.100.0'', Subnet = 28, Item_Country = c2\<rparr>}"
    by simp
  let ?a = "''198.51.100.0''"
  let ?g24 = "\<lparr>IP = ''198.51.100.0'', Subnet = 24, Item_Country = c1\<rparr>"
  let ?g28 = "\<lparr>IP = ''198.51.100.0'', Subnet = 28, Item_Country = c2\<rparr>"
  have ips: "IP ` set G = {?a}" unfolding setG by simp
  then have "?a \<in> IP ` set G" by simp
  with addrs have "\<exists>g \<in> set G. IP g = ?a
           \<and> (\<forall>g' \<in> set G. IP g' = ?a \<longrightarrow> Subnet g \<le> Subnet g')
           \<and> filter (\<lambda>r. base_address r = ?a) out = [reassemble g]
           \<and> find (\<lambda>x. IP x = ?a) (sort_subnet l G) = Some g" by (rule bspec)
  then obtain g where g: "g \<in> set G"
    "\<forall>g' \<in> set G. IP g' = ?a \<longrightarrow> Subnet g \<le> Subnet g'"
    "filter (\<lambda>r. base_address r = ?a) out = [reassemble g]" by blast
  have "?g24 \<in> set G" unfolding setG by simp
  with g(2) have "IP ?g24 = ?a \<longrightarrow> Subnet g \<le> Subnet ?g24" by (rule bspec)
  then have le: "Subnet g \<le> 24" by simp
  from g(1) have "g = ?g24 \<or> g = ?g28" unfolding setG by simp
  then have g24: "g = ?g24"
  proof
    assume "g = ?g28"
    then have "Subnet g = 28" by simp
    with le show ?thesis by simp
  qed
  have "filter (\<lambda>r. base_address r = ?a) out = out"
  proof (rule filter_True, rule ballI)
    fix r assume "r \<in> set out"
    with rows have "base_address r \<in> IP ` set G" by (rule bspec)
    then show "base_address r = ?a" unfolding ips by simp
  qed
  with g(3) have "out = [reassemble g]" by simp
  then show ?thesis unfolding g24
    by (simp add: reassemble_def py_str_def digits.simps digit_char_simps)
qed

lemma expand_df_stable_tie:
  assumes st: "sort_subnet l = sort_key Subnet"
    and f: "find (\<lambda>x. IP x = a) (sort_subnet l G) = Some g"
  shows "find (\<lambda>x. IP x = a \<and> Subnet x = Subnet g) G = Some g"
  using find_stable [of "\<lambda>x. IP x = a" Subnet G g] f unfolding st by simp

lemma expand_df_rows_known:
  assumes "lib_ok l" and "expand_df l df = Inr out" and "generalized df = Inr G"
    and "r \<in> set out"
  shows "base_address r \<in> IP ` set G"
proof -
  from expand_df_least_specific [OF assms(1,2)] obtain G'
    where "generalized df = Inr G'" "\<forall>r \<in> set out. base_address r \<in> IP ` set G'"
    by (elim exE conjE)
  with assms(3,4) show ?thesis by simp
qed

lemma expand_df_address:
  assumes "lib_ok l" and "expand_df l df = Inr out" and "generalized df = Inr G"
    and "a \<in> IP ` set G"
  shows "\<exists>g \<in> set G. IP g = a
           \<and> (\<forall>g' \<in> set G. IP g' = a \<longrightarrow> Subnet g \<le> Subnet g')
           \<and> filter (\<lambda>r. base_address r = a) out = [reassemble g]
           \<and> find (\<lambda>x. IP x = a) (sort_subnet l G) = Some g
           \<and> (sort_subnet l = sort_key Subnet
                \<longrightarrow> find (\<lambda>x. IP x = a \<and> Subnet x = Subnet g) G = Some g)"
proof -
  from expand_df_least_specific [OF assms(1,2)] obtain G'
    where G': "generalized df = Inr G'" and
     addrs: "\<forall>a \<in> IP ` set G'. \<exists>g \<in> set G'. IP g = a
           \<and> (\<forall>g' \<in> set G'. IP g' = a \<longrightarrow> Subnet g \<le> Subnet g')
           \<and> filter (\<lambda>r. base_address r = a) out = [reassemble g]
           \<and> find (\<lambda>x. IP x = a) (sort_subnet l G') = Some g"
    by (elim exE conjE)
  from G' assms(3) have eq: "G' = G" by simp
  from addrs assms(4) have "\<exists>g \<in> set G. IP g = a
           \<and> (\<forall>g' \<in> set G. IP g' = a \<longrightarrow> Subnet g \<le> Subnet g')
           \<and> filter (\<lambda>r. base_address r = a) out = [reassemble g]
           \<and> find (\<lambda>x. IP x = a) (sort_subnet l G) = Some g"
    unfolding eq by (rule bspec)
  then obtain g where g: "g \<in> set G" "IP g = a"
    "\<forall>g' \<in> set G. IP g' = a \<longrightarrow> Subnet g \<le> Subnet g'"
    "filter (\<lambda>r. base_address r = a) out = [reassemble g]"
    "find (\<lambda>x. IP x = a) (sort_subnet l G) = Some g"
    by (elim bexE conjE)
  have st: "sort_subnet l = sort_key Subnet
                \<longrightarrow> find (\<lambda>x. IP x = a \<and> Subnet x = Subnet g) G = Some g"
  proof
    assume "sort_subnet l = sort_key Subnet"
    from expand_df_stable_tie [OF this g(5)]
    show "find (\<lambda>x. IP x = a \<and> Subnet x = Subnet g) G = Some g" .
  qed
  show ?thesis
    by (rule bexI [OF _ g(1)], intro conjI) (rule g(2) g(3) g(4) g(5) st)+
qed

lemma expand_df_generalized:
  assumes "expand_df l df = Inr out"
  shows "\<exists>G. generalized df = Inr G"
  using assms by (rule expand_df_unfold) blast

text \<open>
  C2 (as amended). After the generalization step every base address has exactly one
  row in the result; it is built from an entry of that address whose prefix length is
  the least among the entries of that address. Among several entries of that least
  prefix length the one kept is the one the sort by prefix length puts first, which is
  the first encountered when that sort keeps equal keys in frame order. The networks
  \<^verbatim>\<open>198.51.100.0/24\<close> and \<^verbatim>\<open>198.51.100.0/28\<close>, in either order, leave only
  \<^verbatim>\<open>198.51.100.0/24\<close>.
\<close>

theorem expand_df_conflict_resolution:
  assumes "lib_ok l" and "expand_df l df = Inr out"
  shows "\<exists>G. generalized df = Inr G
     \<and> (\<forall>r \<in> set out. base_address r \<in> IP ` set G)
     \<and> (\<forall>a \<in> IP ` set G. \<exists>g \<in> set G. IP g = a
           \<and> (\<forall>g' \<in> set G. IP g' = a \<longrightarrow> Subnet g \<le> Subnet g')
           \<and> filter (\<lambda>r. base_address r = a) out = [reassemble g]
           \<and> find (\<lambda>x. IP x = a) (sort_subnet l G) = Some g
           \<and> (sort_subnet l = sort_key Subnet
                \<longrightarrow> find (\<lambda>x. IP x = a \<and> Subnet x = Subnet g) G = Some g))
     \<and> (map Network df = [''198.51.100.0/24'', ''198.51.100.0/28'']
          \<or> map Network df = [''198.51.100.0/28'', ''198.51.100.0/24'']
        \<longrightarrow> map Network out = [''198.51.100.0/24''])"
proof -
  from expand_df_generalized [OF assms(2)] obtain G where G: "generalized df = Inr G" ..
  have rows: "\<forall>r \<in> set out. base_address r \<in> IP ` set G"
    by (intro ballI) (rule expand_df_rows_known [OF assms G])
  have addrs: "\<forall>a \<in> IP ` set G. \<exists>g \<in> set G. IP g = a
           \<and> (\<forall>g' \<in> set G. IP g' = a \<longrightarrow> Subnet g \<le> Subnet g')
           \<and> filter (\<lambda>r. base_address r = a) out = [reassemble g]
           \<and> find (\<lambda>x. IP x = a) (sort_subnet l G) = Some g
           \<and> (sort_subnet l = sort_key Subnet
                \<longrightarrow> find (\<lambda>x. IP x = a \<and> Subnet x = Subnet g) G = Some g)"
    by (intro ballI) (rule expand_df_address [OF assms G])
  have pair: "map Network df = [''198.51.100.0/24'', ''198.51.100.0/28'']
          \<or> map Network df = [''198.51.100.0/28'', ''198.51.100.0/24'']
        \<longrightarrow> map Network out = [''198.51.100.0/24'']"
    by (rule impI) (rule expand_df_pair_24_28 [OF assms])
  show ?thesis
    by (rule exI [of _ G], intro conjI) (rule G rows addrs pair)+
qed

lemma py_int_8: "py_int ''8'' = Some 8"
  by (simp add: py_int_def strip_def is_space_def parse_digits_def is_digit_def digit_val_def)

lemma expand_df_tie_stable:
  "expand_df stable_lib [\<lparr>Network = ''10.0.0.0/8'', Country = c1\<rparr>,
                          \<lparr>Network = ''10.0.0.0/8'', Country = c2\<rparr>]
   = Inr [\<lparr>Network = ''10.0.0.0/8'', Country = c1\<rparr>]"
  by (simp add: expand_df_def split_row_def py_int_8 extend_item_def sort_values_def
      stable_lib_def drop_duplicates_def reassemble_def py_str_def digits.simps digit_char_simps)

lemma expand_df_tie_reversing:
  "expand_df reversing_lib [\<lparr>Network = ''10.0.0.0/8'', Country = c1\<rparr>,
                          \<lparr>Network = ''10.0.0.0/8'', Country = c2\<rparr>]
   = Inr [\<lparr>Network = ''10.0.0.0/8'', Country = c2\<rparr>]"
  by (simp add: expand_df_def split_row_def py_int_8 extend_item_def sort_values_def
      reversing_lib_def drop_duplicates_def reassemble_def py_str_def digits.simps digit_char_simps)

lemma py_int_16: "py_int ''16'' = Some 16"
  by (simp add: py_int_def strip_def is_space_def parse_digits_def is_digit_def digit_val_def)

lemma generalized_tie:
  "generalized [\<lparr>Network = ''10.0.0.0/8'', Country = c1\<rparr>,
                \<lparr>Network = ''10.0.0.0/8'', Country = c2\<rparr>]
   = Inr [\<lparr>IP = ''10.0.0.0'', Subnet = 8, Item_Country = c1\<rparr>,
          \<lparr>IP = ''10.0.0.0'', Subnet = 8, Item_Country = c2\<rparr>]"
  by (simp add: generalized_def split_row_def py_int_8 extend_item_def)

lemma expand_df_four_reversing:
  "expand_df reversing_lib
     [\<lparr>Network = ''1.0.0.0/16'', Country = ''IR''\<rparr>,
      \<lparr>Network = ''1.0.0.0/24'', Country = ''IR''\<rparr>,
      \<lparr>Network = ''10.0.0.0/8'', Country = ''IR''\<rparr>,
      \<lparr>Network = ''10.0.0.0/8'', Country = ''CN''\<rparr>]
   = Inr [\<lparr>Network = ''10.0.0.0/8'', Country = ''CN''\<rparr>,
          \<lparr>Network = ''1.0.0.0/16'', Country = ''IR''\<rparr>]"
  by (simp add: expand_df_def split_row_def py_int_8 py_int_16 py_int_24 extend_item_def
      sort_values_def reversing_lib_def drop_duplicates_def reassemble_def py_str_def
      digits.simps digit_char_simps)

text \<open>
  C2 as stated fails on the tie-break. In the frame below the address \<^verbatim>\<open>10.0.0.0\<close> has two
  entries of prefix length 8, first one labelled IR, then one labelled CN, after two
  entries of longer prefixes. A sort by prefix length that does not keep equal keys in
  frame order puts the CN entry first, and that entry, the second one encountered, is
  the one kept.
\<close>

theorem expand_df_tie_counterexample:
  "lib_ok reversing_lib
   \<and> expand_df reversing_lib
       [\<lparr>Network = ''1.0.0.0/16'', Country = ''IR''\<rparr>,
        \<lparr>Network = ''1.0.0.0/24'', Country = ''IR''\<rparr>,
        \<lparr>Network = ''10.0.0.0/8'', Country = ''IR''\<rparr>,
        \<lparr>Network = ''10.0.0.0/8'', Country = ''CN''\<rparr>]
     = Inr [\<lparr>Network = ''10.0.0.0/8'', Country = ''CN''\<rparr>,
            \<lparr>Network = ''1.0.0.0/16'', Country = ''IR''\<rparr>]"
  by (intro conjI) (rule lib_ok_reversing_lib expand_df_four_reversing)+

theorem expand_df_conflict_resolution_witness:
  "\<exists>g. lib_ok stable_lib
     \<and> expand_df stable_lib [\<lparr>Network = ''10.0.0.0/8'', Country = ''IR''\<rparr>,
                             \<lparr>Network = ''10.0.0.0/8'', Country = ''CN''\<rparr>]
       = Inr [\<lparr>Network = ''10.0.0.0/8'', Country = ''IR''\<rparr>]
     \<and> generalized [\<lparr>Network = ''10.0.0.0/8'', Country = ''IR''\<rparr>,
                    \<lparr>Network = ''10.0.0.0/8'', Country = ''CN''\<rparr>]
       = Inr [\<lparr>IP = ''10.0.0.0'', Subnet = 8, Item_Country = ''IR''\<rparr>,
              \<lparr>IP = ''10.0.0.0'', Subnet = 8, Item_Country = ''CN''\<rparr>]
     \<and> sort_subnet stable_lib = sort_key Subnet
     \<and> g = \<lparr>IP = ''10.0.0.0'', Subnet = 8, Item_Country = ''IR''\<rparr>
     \<and> filter (\<lambda>r. base_address r = ''10.0.0.0'')
           [\<lparr>Network = ''10.0.0.0/8'', Country = ''IR''\<rparr>] = [reassemble g]
     \<and> find (\<lambda>x. IP x = ''10.0.0.0'' \<and> Subnet x = Subnet g)
           [\<lparr>IP = ''10.0.0.0'', Subnet = 8, Item_Country = ''IR''\<rparr>,
            \<lparr>IP = ''10.0.0.0'', Subnet = 8, Item_Country = ''CN''\<rparr>] = Some g"
proof -
  let ?df = "[\<lparr>Network = ''10.0.0.0/8'', Country = ''IR''\<rparr>,
              \<lparr>Network = ''10.0.0.0/8'', Country = ''CN''\<rparr>]"
  let ?gIR = "\<lparr>IP = ''10.0.0.0'', Subnet = 8, Item_Country = ''IR''\<rparr>"
  let ?gCN = "\<lparr>IP = ''10.0.0.0'', Subnet = 8, Item_Country = ''CN''\<rparr>"
  let ?out = "[\<lparr>Network = ''10.0.0.0/8'', Country = ''IR''\<rparr>]"
  have run: "expand_df stable_lib ?df = Inr ?out" by (rule expand_df_tie_stable)
  have gen: "generalized ?df = Inr [?gIR, ?gCN]" by (rule generalized_tie)
  have srt: "sort_subnet stable_lib = sort_key Subnet" by (simp add: stable_lib_def)
  from expand_df_conflict_resolution [OF lib_ok_stable_lib run]
  obtain G where G: "generalized ?df = Inr G"
    and addrs: "\<forall>a \<in> IP ` set G. \<exists>g \<in> set G. IP g = a
           \<and> (\<forall>g' \<in> set G. IP g' = a \<longrightarrow> Subnet g \<le> Subnet g')
           \<and> filter (\<lambda>r. base_address r = a) ?out = [reassemble g]
           \<and> find (\<lambda>x. IP x = a) (sort_subnet stable_lib G) = Some g
           \<and> (sort_subnet stable_lib = sort_key Subnet
                \<longrightarrow> find (\<lambda>x. IP x = a \<and> Subnet x = Subnet g) G = Some g)"
    by (elim exE conjE)
  from G gen have GG: "G = [?gIR, ?gCN]" by simp
  have "''10.0.0.0'' \<in> IP ` set G" unfolding GG by simp
  with addrs have "\<exists>g \<in> set G. IP g = ''10.0.0.0''
           \<and> (\<forall>g' \<in> set G. IP g' = ''10.0.0.0'' \<longrightarrow> Subnet g \<le> Subnet g')
           \<and> filter (\<lambda>r. base_address r = ''10.0.0.0'') ?out = [reassemble g]
           \<and> find (\<lambda>x. IP x = ''10.0.0.0'') (sort_subnet stable_lib G) = Some g
           \<and> (sort_subnet stable_lib = sort_key Subnet
                \<longrightarrow> find (\<lambda>x. IP x = ''10.0.0.0'' \<and> Subnet x = Subnet g) G = Some g)"
    by (rule bspec)
  then obtain g where g: "g \<in> set G"
    "filter (\<lambda>r. base_address r = ''10.0.0.0'') ?out = [reassemble g]"
    "sort_subnet stable_lib = sort_key Subnet
       \<longrightarrow> find (\<lambda>x. IP x = ''10.0.0.0'' \<and> Subnet x = Subnet g) G = Some g"
    by (elim bexE conjE)
  from g(3) srt have fnd: "find (\<lambda>x. IP x = ''10.0.0.0'' \<and> Subnet x = Subnet g) G = Some g"
    by (rule mp)
  have "filter (\<lambda>r. base_address r = ''10.0.0.0'') ?out = ?out"
    by (simp add: base_address_def)
  with g(2) have "reassemble g = \<lparr>Network = ''10.0.0.0/8'', Country = ''IR''\<rparr>" by simp
  then have "Country (reassemble g) = ''IR''" by simp
  then have c: "Item_Country g = ''IR''" by (simp add: reassemble_def)
  from g(1) have "g = ?gIR \<or> g = ?gCN" unfolding GG by simp
  then have gv: "g = ?gIR"
  proof
    assume "g = ?gCN"
    then have "Item_Country g = ''CN''" by simp
    with c show ?thesis by simp
  qed
  show ?thesis
    by (rule exI [of _ g], intro conjI)
       (rule lib_ok_stable_lib run gen srt gv g(2) fnd [unfolded GG])+
qed

text \<open>
  C9. The conflict resolution looks at the base address only. When two entries of one
  address carry different countries after the generalization step, the result has a
  single row for that address, built from an entry of least prefix length; at least
  one of the two entries is absent from the result, and with it its country for that
  address. Which of several entries of least prefix length is kept depends on the
  sort: one sort keeps the first, another the second.
\<close>

theorem expand_df_keys_on_address_alone:
  assumes "lib_ok l" and "expand_df l df = Inr out" and "generalized df = Inr G"
    and "g1 \<in> set G" and "g2 \<in> set G" and "IP g1 = IP g2"
    and "Item_Country g1 \<noteq> Item_Country g2"
  shows "(\<exists>g \<in> set G. IP g = IP g1
           \<and> (\<forall>g' \<in> set G. IP g' = IP g1 \<longrightarrow> Subnet g \<le> Subnet g')
           \<and> filter (\<lambda>r. base_address r = IP g1) out = [reassemble g]
           \<and> map Country (filter (\<lambda>r. base_address r = IP g1) out) = [Item_Country g])
       \<and> (reassemble g1 \<notin> set out \<or> reassemble g2 \<notin> set out)
       \<and> expand_df stable_lib [\<lparr>Network = ''10.0.0.0/8'', Country = c1\<rparr>,
                                \<lparr>Network = ''10.0.0.0/8'', Country = c2\<rparr>]
           = Inr [\<lparr>Network = ''10.0.0.0/8'', Country = c1\<rparr>]
       \<and> expand_df reversing_lib [\<lparr>Network = ''10.0.0.0/8'', Country = c1\<rparr>,
                                   \<lparr>Network = ''10.0.0.0/8'', Country = c2\<rparr>]
           = Inr [\<lparr>Network = ''10.0.0.0/8'', Country = c2\<rparr>]"
proof -
  from assms(4) have "IP g1 \<in> IP ` set G" by (rule imageI)
  from expand_df_address [OF assms(1,2,3) this]
  obtain g where g: "g \<in> set G" "IP g = IP g1"
    "\<forall>g' \<in> set G. IP g' = IP g1 \<longrightarrow> Subnet g \<le> Subnet g'"
    "filter (\<lambda>r. base_address r = IP g1) out = [reassemble g]"
    by (elim bexE conjE)
  have country: "map Country (filter (\<lambda>r. base_address r = IP g1) out) = [Item_Country g]"
    unfolding g(4) by (simp add: reassemble_def)
  have dropped: "reassemble g1 \<notin> set out \<or> reassemble g2 \<notin> set out"
  proof (rule ccontr)
    assume "\<not> ?thesis"
    then have both: "reassemble g1 \<in> set out" "reassemble g2 \<in> set out" by simp_all
    have b1: "base_address (reassemble g1) = IP g1"
      using generalized_no_slash [OF assms(3,4)] by (rule base_address_reassemble)
    have b2: "base_address (reassemble g2) = IP g1"
      using generalized_no_slash [OF assms(3,5)] assms(6) by (simp add: base_address_reassemble)
    from both(1) b1 have "reassemble g1 \<in> set (filter (\<lambda>r. base_address r = IP g1) out)"
      by simp
    then have e1: "reassemble g1 = reassemble g" unfolding g(4) by simp
    from both(2) b2 have "reassemble g2 \<in> set (filter (\<lambda>r. base_address r = IP g1) out)"
      by simp
    then have e2: "reassemble g2 = reassemble g" unfolding g(4) by simp
    from e1 e2 have "Country (reassemble g1) = Country (reassemble g2)" by simp
    then have "Item_Country g1 = Item_Country g2" by (simp add: reassemble_def)
    with assms(7) show False by simp
  qed
  have survivor: "\<exists>g \<in> set G. IP g = IP g1
           \<and> (\<forall>g' \<in> set G. IP g' = IP g1 \<longrightarrow> Subnet g \<le> Subnet g')
           \<and> filter (\<lambda>r. base_address r = IP g1) out = [reassemble g]
           \<and> map Country (filter (\<lambda>r. base_address r = IP g1) out) = [Item_Country g]"
    by (rule bexI [OF _ g(1)], intro conjI) (rule g(2) g(3) g(4) country)+
  show ?thesis
    by (intro conjI)
       (rule survivor dropped expand_df_tie_stable expand_df_tie_reversing)+
qed

theorem expand_df_keys_on_address_alone_witness:
  "filter (\<lambda>r. base_address r = ''10.0.0.0'')
      [\<lparr>Network = ''10.0.0.0/8'', Country = ''IR''\<rparr>]
     = [\<lparr>Network = ''10.0.0.0/8'', Country = ''IR''\<rparr>]
   \<and> reassemble \<lparr>IP = ''10.0.0.0'', Subnet = 8, Item_Country = ''CN''\<rparr>
       \<notin> set [\<lparr>Network = ''10.0.0.0/8'', Country = ''IR''\<rparr>]"
proof -
  let ?g1 = "\<lparr>IP = ''10.0.0.0'', Subnet = 8, Item_Country = ''IR''\<rparr>"
  let ?g2 = "\<lparr>IP = ''10.0.0.0'', Subnet = 8, Item_Country = ''CN''\<rparr>"
  let ?out = "[\<lparr>Network = ''10.0.0.0/8'', Country = ''IR''\<rparr>]"
  have m1: "?g1 \<in> set [?g1, ?g2]" and m2: "?g2 \<in> set [?g1, ?g2]" by simp_all
  have ip: "IP ?g1 = IP ?g2" by simp
  have cs: "Item_Country ?g1 \<noteq> Item_Country ?g2" by simp
  from expand_df_keys_on_address_alone
    [OF lib_ok_stable_lib expand_df_tie_stable generalized_tie m1 m2 ip cs]
  have d: "reassemble ?g1 \<notin> set ?out \<or> reassemble ?g2 \<notin> set ?out"
    by (rule conjunct1 [OF conjunct2])
  have "reassemble ?g1 \<in> set ?out"
    by (simp add: reassemble_def py_str_def digits.simps digit_char_simps)
  with d have "reassemble ?g2 \<notin> set ?out" by blast
  moreover have "filter (\<lambda>r. base_address r = ''10.0.0.0'') ?out = ?out"
    by (simp add: base_address_def)
  ultimately show ?thesis by (rule conjI [rotated])
qed

subsection \<open>Decimal text of an integer\<close>

lemma digits_all_digits: "\<forall>c \<in> set (digits n). is_digit c"
proof (induction n rule: digits.induct)
  case (1 n)
  show ?case
  proof (cases "n < 10")
    case True
    then show ?thesis using digit_char_is_digit [of n] by (subst digits.simps) simp
  next
    case False
    with 1 have IH: "\<forall>c \<in> set (digits (n div 10)). is_digit c" by simp
    have "is_digit (digit_char (n mod 10))" using digit_char_is_digit [of "n mod 10"] by simp
    with IH False show ?thesis by (subst digits.simps) simp
  qed
qed

lemma digits_not_Nil: "digits n \<noteq> []"
  by (subst digits.simps) simp

lemma after_digit_digits:
  "\<forall>c \<in> set s. is_digit c \<Longrightarrow>
   after_digit acc s = Some (foldl (\<lambda>a c. a * 10 + digit_val c) acc s)"
  by (induction s arbitrary: acc) simp_all

lemma foldl_digits: "foldl (\<lambda>a c. a * 10 + digit_val c) 0 (digits n) = n"
proof (induction n rule: digits.induct)
  case (1 n)
  show ?case
  proof (cases "n < 10")
    case True
    then show ?thesis using digit_char_is_digit [of n] by (subst digits.simps) simp
  next
    case False
    with 1 have IH: "foldl (\<lambda>a c. a * 10 + digit_val c) 0 (digits (n div 10)) = n div 10" by simp
    have "digit_val (digit_char (n mod 10)) = n mod 10"
      using digit_char_is_digit [of "n mod 10"] by simp
    with IH False show ?thesis by (subst digits.simps) simp
  qed
qed

lemma parse_digits_digits: "parse_digits (digits n) = Some n"
proof -
  obtain c cs where cs: "digits n = c # cs" using digits_not_Nil [of n] by (cases "digits n") auto
  from digits_all_digits [of n] cs have d: "is_digit c" "\<forall>x \<in> set cs. is_digit x" by simp_all
  have "foldl (\<lambda>a c. a * 10 + digit_val c) 0 (c # cs) = n"
    using foldl_digits [of n] unfolding cs .
  then have "foldl (\<lambda>a c. a * 10 + digit_val c) (digit_val c) cs = n" by simp
  with d show ?thesis unfolding cs parse_digits_def
    by (simp add: after_digit_digits)
qed

lemma is_digit_not_space: "is_digit c \<Longrightarrow> \<not> is_space c"
  by (auto simp: is_digit_def is_space_def)

lemma strip_id:
  assumes "s \<noteq> []" "\<not> is_space (hd s)" "\<not> is_space (last s)"
  shows "strip s = s"
proof -
  from assms(1,2) have a: "dropWhile is_space s = s" by (cases s) auto
  from assms(1,3) have "dropWhile is_space (rev s) = rev s"
    by (cases "rev s") (auto simp: last_rev [symmetric] simp del: last_rev)
  with a show ?thesis by (simp add: strip_def)
qed

lemma py_int_py_str: "py_int (py_str n) = Some n"
proof (cases "n < 0")
  case True
  let ?s = "CHR ''-'' # digits (nat (- n))"
  have l: "is_digit (last (digits (nat (- n))))"
    using digits_all_digits [of "nat (- n)"] digits_not_Nil [of "nat (- n)"] by simp
  have "\<not> is_space (hd ?s)" by (simp add: is_space_def)
  moreover have "\<not> is_space (last ?s)"
    using l digits_not_Nil [of "nat (- n)"] by (simp add: is_digit_not_space)
  ultimately have "strip ?s = ?s" by (intro strip_id) simp_all
  with True show ?thesis
    by (simp add: py_int_def py_str_def parse_digits_digits)
next
  case False
  let ?s = "digits (nat n)"
  obtain c cs where cs: "?s = c # cs" using digits_not_Nil [of "nat n"] by (cases ?s) auto
  have d: "is_digit c" using digits_all_digits [of "nat n"] cs by simp
  have l: "is_digit (last ?s)"
    using digits_all_digits [of "nat n"] digits_not_Nil [of "nat n"] by simp
  have "strip ?s = ?s"
    using d l cs by (intro strip_id) (simp_all add: is_digit_not_space)
  moreover have "c \<noteq> CHR ''-''" "c \<noteq> CHR ''+''" using d by (auto simp: is_digit_def)
  moreover have "parse_digits (c # cs) = Some (nat n)"
    using parse_digits_digits [of "nat n"] unfolding cs .
  ultimately show ?thesis using False
    by (simp add: py_int_def py_str_def cs)
qed

lemma py_str_no_slash: "CHR ''/'' \<notin> set (py_str n)"
proof -
  have "\<not> is_digit CHR ''/''" by (simp add: is_digit_def)
  then have "CHR ''/'' \<notin> set (digits m)" for m
    using digits_all_digits [of m] by blast
  then show ?thesis by (simp add: py_str_def)
qed

lemma split_row_reassemble:
  assumes "CHR ''/'' \<notin> set (IP k)"
  shows "split_row (reassemble k) = Inr k"
proof -
  have "split_on CHR ''/'' (IP k @ CHR ''/'' # py_str (Subnet k)) = [IP k, py_str (Subnet k)]"
    using assms py_str_no_slash [of "Subnet k"]
    by (simp add: split_on_append_sep split_on_no_sep)
  then show ?thesis
    by (simp add: split_row_def reassemble_def py_int_py_str)
qed

lemma split_rows_reassemble:
  "\<forall>k \<in> set ks. CHR ''/'' \<notin> set (IP k) \<Longrightarrow> split_rows (map reassemble ks) = Inr ks"
  by (induction ks) (simp_all add: split_row_reassemble)

lemma extend_item_settled:
  "extend_item i = Inr x \<Longrightarrow> \<not> (CHR ''.'' \<in> set (IP x) \<and> Subnet x = 32)"
  by (auto simp: extend_item_def Let_def split: if_splits)

lemma extend_items_settled:
  "extend_items is = Inr xs \<Longrightarrow> \<forall>x \<in> set xs. \<not> (CHR ''.'' \<in> set (IP x) \<and> Subnet x = 32)"
proof (induction "is" arbitrary: xs)
  case Nil then show ?case by simp
next
  case (Cons i "is")
  from Cons.prems obtain y ys where y: "extend_item i = Inr y" "extend_items is = Inr ys" "xs = y # ys"
    by (auto split: sum.splits)
  from extend_item_settled [OF y(1)] Cons.IH [OF y(2)] y(3) show ?case by simp
qed

lemma extend_items_id:
  "\<forall>x \<in> set xs. \<not> (CHR ''.'' \<in> set (IP x) \<and> Subnet x = 32) \<Longrightarrow> extend_items xs = Inr xs"
  by (induction xs) (auto simp: extend_item_def)

lemma generalized_settled:
  "generalized df = Inr G \<Longrightarrow> g \<in> set G \<Longrightarrow> \<not> (CHR ''.'' \<in> set (IP g) \<and> Subnet g = 32)"
  using extend_items_settled by (fastforce simp: generalized_def split: sum.splits)

lemma generalized_reassemble:
  assumes "\<forall>k \<in> set ks. CHR ''/'' \<notin> set (IP k)"
    and "\<forall>k \<in> set ks. \<not> (CHR ''.'' \<in> set (IP k) \<and> Subnet k = 32)"
  shows "generalized (map reassemble ks) = Inr ks"
  using assms by (simp add: generalized_def split_rows_reassemble extend_items_id)

lemma perm_of_map:
  "mset ys = mset (map f xs) \<Longrightarrow> \<exists>zs. ys = map f zs \<and> mset zs = mset xs"
proof (induction ys arbitrary: xs)
  case Nil then show ?case by simp
next
  case (Cons y ys)
  then have "y \<in> set (map f xs)" by (metis list.set_intros(1) mset_eq_setD)
  then obtain x where x: "x \<in> set xs" "f x = y" by auto
  then obtain as bs where xs: "xs = as @ x # bs" by (meson split_list)
  with Cons.prems x(2) have "mset ys = mset (map f (as @ bs))" by simp
  from Cons.IH [OF this] obtain zs where zs: "ys = map f zs" "mset zs = mset (as @ bs)" by blast
  have "y # ys = map f (x # zs) \<and> mset (x # zs) = mset xs" using zs x(2) xs by simp
  then show ?case by (rule exI)
qed

lemma sorted_drop_dups_from:
  "sorted (map f xs) \<Longrightarrow> sorted (map f (drop_dups_from seen key xs))"
proof (induction xs arbitrary: seen)
  case Nil then show ?case by simp
next
  case (Cons x xs)
  then have s: "sorted (map f xs)" and le: "\<forall>y \<in> set xs. f x \<le> f y" by simp_all
  have sub: "set (drop_dups_from s' key xs) \<subseteq> set xs" for s'
    by (rule drop_dups_from_subset)
  show ?case using Cons.IH [OF s] le sub by (auto simp: subset_iff)
qed

subsection \<open>Running the Deduplicator / Expander on its own result\<close>

lemma expand_df_via_generalized:
  "expand_df l df =
     (case generalized df of
        Inl e \<Rightarrow> Inl e
      | Inr G \<Rightarrow>
          (case sort_values ''Subnet'' (sort_subnet l) G of
             Inl e \<Rightarrow> Inl e
           | Inr sorted_df \<Rightarrow>
               sort_values ''Country'' (sort_country l)
                 (map reassemble (drop_duplicates IP sorted_df))))"
  by (simp add: expand_df_def generalized_def Let_def split: sum.splits)

lemma map_reassemble_inj:
  assumes "\<forall>k \<in> set xs. CHR ''/'' \<notin> set (IP k)" "\<forall>k \<in> set ys. CHR ''/'' \<notin> set (IP k)"
    and "map reassemble xs = map reassemble ys"
  shows "xs = ys"
proof -
  have "Inr xs = split_rows (map reassemble xs)" using assms(1) by (simp add: split_rows_reassemble)
  also have "\<dots> = split_rows (map reassemble ys)" using assms(3) by simp
  also have "\<dots> = Inr ys" using assms(2) by (simp add: split_rows_reassemble)
  finally show ?thesis by simp
qed

lemma filter_Country_reassemble:
  "filter (\<lambda>x. c = Country x) (map reassemble ks) =
   map reassemble (filter (\<lambda>i. c = Item_Country i) ks)"
  by (simp add: filter_map comp_def reassemble_def)

text \<open>The shape of a successful result: the reassembled survivors, in some order.\<close>

lemma expand_df_result_shape:
  assumes ok: "lib_ok l" and run: "expand_df l d = Inr out"
  shows "\<exists>G K. generalized d = Inr G \<and> out = map reassemble K \<and> K \<noteq> []
           \<and> mset K = mset (drop_duplicates IP (sort_subnet l G))
           \<and> out = sort_country l (map reassemble (drop_duplicates IP (sort_subnet l G)))
           \<and> sorted (map Subnet (sort_subnet l G))
           \<and> distinct (map IP K)
           \<and> (\<forall>k \<in> set K. CHR ''/'' \<notin> set (IP k))
           \<and> (\<forall>k \<in> set (drop_duplicates IP (sort_subnet l G)). CHR ''/'' \<notin> set (IP k))
           \<and> (\<forall>k \<in> set K. \<not> (CHR ''.'' \<in> set (IP k) \<and> Subnet k = 32))"
proof -
  from run obtain G where G: "generalized d = Inr G" "G \<noteq> []"
    "out = sort_country l (map reassemble (drop_duplicates IP (sort_subnet l G)))"
    "map reassemble (drop_duplicates IP (sort_subnet l G)) \<noteq> []"
    by (rule expand_df_unfold)
  let ?S = "sort_subnet l G"
  let ?K0 = "drop_duplicates IP ?S"
  from ok have S: "mset ?S = mset G" "sorted (map Subnet ?S)"
    by (simp_all add: lib_ok_def sorts_by_def)
  from ok G(3) have "mset out = mset (map reassemble ?K0)"
    by (simp add: lib_ok_def sorts_by_def)
  from perm_of_map [OF this] obtain K where K: "out = map reassemble K" "mset K = mset ?K0"
    by (elim exE conjE)
  from K(2) G(4) have ne: "K \<noteq> []" by auto
  have "set ?K0 \<subseteq> set ?S" unfolding drop_duplicates_def by (rule drop_dups_from_subset)
  also have "set ?S = set G" using S(1) by (rule mset_eq_setD)
  finally have K0G: "set ?K0 \<subseteq> set G" .
  from K(2) have "set K = set ?K0" by (rule mset_eq_setD)
  with K0G have KG: "set K \<subseteq> set G" by simp
  have d0: "distinct (map IP ?K0)" unfolding drop_duplicates_def by (rule drop_dups_from_distinct)
  from K(2) have "mset (map IP K) = mset (map IP ?K0)" by simp
  with d0 have dK: "distinct (map IP K)" by (metis mset_eq_imp_distinct_iff)
  have ns: "\<forall>k \<in> set K. CHR ''/'' \<notin> set (IP k)"
    using KG generalized_no_slash [OF G(1)] by blast
  have ns0: "\<forall>k \<in> set ?K0. CHR ''/'' \<notin> set (IP k)"
    using K0G generalized_no_slash [OF G(1)] by blast
  have st: "\<forall>k \<in> set K. \<not> (CHR ''.'' \<in> set (IP k) \<and> Subnet k = 32)"
    using KG generalized_settled [OF G(1)] by blast
  show ?thesis
    by (rule exI [of _ G], rule exI [of _ K], intro conjI)
       (rule G(1) K(1) ne K(2) G(3) S(2) dK ns ns0 st)+
qed

lemma expand_df_again:
  assumes ok: "lib_ok l" and K: "K \<noteq> []" "distinct (map IP K)"
    "\<forall>k \<in> set K. CHR ''/'' \<notin> set (IP k)"
    "\<forall>k \<in> set K. \<not> (CHR ''.'' \<in> set (IP k) \<and> Subnet k = 32)"
  shows "expand_df l (map reassemble K) = Inr (sort_country l (map reassemble (sort_subnet l K)))"
proof -
  let ?S = "sort_subnet l K"
  from ok have S: "mset ?S = mset K" by (simp add: lib_ok_def sorts_by_def)
  then have "mset (map IP ?S) = mset (map IP K)" by simp
  with K(2) have "distinct (map IP ?S)" by (metis mset_eq_imp_distinct_iff)
  then have dd: "drop_duplicates IP ?S = ?S"
    unfolding drop_duplicates_def by (intro drop_dups_from_id) simp_all
  from S K(1) have "?S \<noteq> []" by auto
  with K(1) show ?thesis
    by (simp add: expand_df_via_generalized generalized_reassemble [OF K(3,4)]
        sort_values_def dd)
qed

lemma expand_df_again_stable:
  assumes srt: "sort_subnet l = sort_key Subnet" "sort_country l = sort_key Country"
    and out: "map reassemble K = sort_key Country (map reassemble K0)"
    and K0: "sorted (map Subnet K0)"
    and ns: "\<forall>k \<in> set K. CHR ''/'' \<notin> set (IP k)" "\<forall>k \<in> set K0. CHR ''/'' \<notin> set (IP k)"
  shows "sort_country l (map reassemble (sort_subnet l K)) = map reassemble K"
proof -
  let ?out = "map reassemble K"
  let ?X = "map reassemble (sort_key Subnet K)"
  have m: "mset ?out = mset ?X" by simp
  have s: "sorted (map Country ?out)" unfolding out by simp
  have f: "filter (\<lambda>x. Country k = Country x) ?out = filter (\<lambda>x. Country k = Country x) ?X" for k
  proof -
    let ?c = "Country k"
    let ?Q = "\<lambda>i. ?c = Item_Country i"
    have "map reassemble (filter ?Q K) = filter (\<lambda>x. ?c = Country x) ?out"
      by (simp add: filter_Country_reassemble)
    also have "\<dots> = filter (\<lambda>x. Country x = ?c) (sort_key Country (map reassemble K0))"
      unfolding out by (simp add: eq_commute)
    also have "\<dots> = filter (\<lambda>x. Country x = ?c) (map reassemble K0)"
      by (rule sort_key_stable)
    also have "\<dots> = map reassemble (filter ?Q K0)"
      using filter_Country_reassemble [of ?c K0] by (simp add: eq_commute)
    finally have "map reassemble (filter ?Q K) = map reassemble (filter ?Q K0)" .
    moreover have "\<forall>k \<in> set (filter ?Q K). CHR ''/'' \<notin> set (IP k)" using ns(1) by simp
    moreover have "\<forall>k \<in> set (filter ?Q K0). CHR ''/'' \<notin> set (IP k)" using ns(2) by simp
    ultimately have eq: "filter ?Q K = filter ?Q K0" by (intro map_reassemble_inj)
    have "sorted (map Subnet (filter ?Q K0))" using K0 by (rule sorted_filter)
    then have sK: "sorted (map Subnet (filter ?Q K))" unfolding eq .
    have "filter (\<lambda>x. ?c = Country x) ?X = map reassemble (filter ?Q (sort_key Subnet K))"
      by (rule filter_Country_reassemble)
    also have "filter ?Q (sort_key Subnet K) = sort_key Subnet (filter ?Q K)"
      by (rule filter_sort)
    also have "\<dots> = filter ?Q K" using sK by (rule sort_key_id_if_sorted)
    also have "map reassemble (filter ?Q K) = filter (\<lambda>x. ?c = Country x) ?out"
      by (simp add: filter_Country_reassemble)
    finally show ?thesis by simp
  qed
  have "sort_key Country ?X = ?out"
    using m f s by (rule properties_for_sort_key)
  then show ?thesis unfolding srt .
qed

text \<open>
  C5 (as amended). When \<^verbatim>\<open>expand_df\<close> succeeds on a frame, it succeeds on its own
  result as well, and the second result has the same rows as the first and is sorted by
  country. The two results are the same list whenever both sorts keep rows of equal key
  in frame order.
\<close>

theorem expand_df_twice:
  assumes "lib_ok l" and "expand_df l d = Inr out"
  shows "\<exists>out2. expand_df l out = Inr out2 \<and> mset out2 = mset out
           \<and> sorted (map Country out2)
           \<and> (sort_subnet l = sort_key Subnet \<and> sort_country l = sort_key Country
                \<longrightarrow> out2 = out)"
proof -
  from expand_df_result_shape [OF assms] obtain G K where
    K: "out = map reassemble K" "K \<noteq> []"
      "out = sort_country l (map reassemble (drop_duplicates IP (sort_subnet l G)))"
      "sorted (map Subnet (sort_subnet l G))"
      "distinct (map IP K)"
      "\<forall>k \<in> set K. CHR ''/'' \<notin> set (IP k)"
      "\<forall>k \<in> set (drop_duplicates IP (sort_subnet l G)). CHR ''/'' \<notin> set (IP k)"
      "\<forall>k \<in> set K. \<not> (CHR ''.'' \<in> set (IP k) \<and> Subnet k = 32)"
    by (elim exE conjE)
  let ?out2 = "sort_country l (map reassemble (sort_subnet l K))"
  have run2: "expand_df l out = Inr ?out2"
    unfolding K(1) using assms(1) K(2,5,6,8) by (rule expand_df_again)
  from assms(1) have "mset ?out2 = mset (map reassemble (sort_subnet l K))"
    by (simp add: lib_ok_def sorts_by_def)
  also from assms(1) have "mset (sort_subnet l K) = mset K"
    by (simp add: lib_ok_def sorts_by_def)
  then have "mset (map reassemble (sort_subnet l K)) = mset (map reassemble K)"
    by simp
  finally have perm: "mset ?out2 = mset out" unfolding K(1) .
  from assms(1) have srt: "sorted (map Country ?out2)"
    by (simp add: lib_ok_def sorts_by_def)
  have stable: "sort_subnet l = sort_key Subnet \<and> sort_country l = sort_key Country
                \<longrightarrow> ?out2 = out"
  proof
    assume st: "sort_subnet l = sort_key Subnet \<and> sort_country l = sort_key Country"
    let ?K0 = "drop_duplicates IP (sort_subnet l G)"
    from K(1,3) st have o: "map reassemble K = sort_key Country (map reassemble ?K0)" by simp
    have s0: "sorted (map Subnet ?K0)"
      unfolding drop_duplicates_def using K(4) by (rule sorted_drop_dups_from)
    from st have "sort_subnet l = sort_key Subnet" "sort_country l = sort_key Country"
      by simp_all
    from expand_df_again_stable [OF this o s0 K(6,7)]
    show "?out2 = out" unfolding K(1) .
  qed
  show ?thesis
    by (rule exI [of _ ?out2], intro conjI) (rule run2 perm srt stable)+
qed

lemma expand_df_reversing_once:
  "expand_df reversing_lib
     [\<lparr>Network = ''1.0.0.0/16'', Country = ''CN''\<rparr>,
      \<lparr>Network = ''2.0.0.0/24'', Country = ''CN''\<rparr>,
      \<lparr>Network = ''3.0.0.0/8'', Country = ''IR''\<rparr>,
      \<lparr>Network = ''4.0.0.0/8'', Country = ''IR''\<rparr>]
   = Inr [\<lparr>Network = ''1.0.0.0/16'', Country = ''CN''\<rparr>,
          \<lparr>Network = ''2.0.0.0/24'', Country = ''CN''\<rparr>,
          \<lparr>Network = ''4.0.0.0/8'', Country = ''IR''\<rparr>,
          \<lparr>Network = ''3.0.0.0/8'', Country = ''IR''\<rparr>]"
  by (simp add: expand_df_def split_row_def py_int_8 py_int_16 py_int_24 extend_item_def
      sort_values_def reversing_lib_def drop_duplicates_def reassemble_def py_str_def
      digits.simps digit_char_simps)

lemma expand_df_reversing_twice:
  "expand_df reversing_lib
     [\<lparr>Network = ''1.0.0.0/16'', Country = ''CN''\<rparr>,
      \<lparr>Network = ''2.0.0.0/24'', Country = ''CN''\<rparr>,
      \<lparr>Network = ''4.0.0.0/8'', Country = ''IR''\<rparr>,
      \<lparr>Network = ''3.0.0.0/8'', Country = ''IR''\<rparr>]
   = Inr [\<lparr>Network = ''1.0.0.0/16'', Country = ''CN''\<rparr>,
          \<lparr>Network = ''2.0.0.0/24'', Country = ''CN''\<rparr>,
          \<lparr>Network = ''3.0.0.0/8'', Country = ''IR''\<rparr>,
          \<lparr>Network = ''4.0.0.0/8'', Country = ''IR''\<rparr>]"
  by (simp add: expand_df_def split_row_def py_int_8 py_int_16 py_int_24 extend_item_def
      sort_values_def reversing_lib_def drop_duplicates_def reassemble_def py_str_def
      digits.simps digit_char_simps)

text \<open>
  C5 as stated fails on the order of the rows. The frame below is sorted by country, its
  prefix lengths are 16, 24, 8, 8. A sort by prefix length that does not keep equal keys
  in frame order exchanges the two entries of prefix length 8 on every run, so the
  second run returns the rows of the first in another order.
\<close>

theorem expand_df_twice_counterexample:
  "lib_ok reversing_lib
   \<and> expand_df reversing_lib
       [\<lparr>Network = ''1.0.0.0/16'', Country = ''CN''\<rparr>,
        \<lparr>Network = ''2.0.0.0/24'', Country = ''CN''\<rparr>,
        \<lparr>Network = ''3.0.0.0/8'', Country = ''IR''\<rparr>,
        \<lparr>Network = ''4.0.0.0/8'', Country = ''IR''\<rparr>]
     = Inr [\<lparr>Network = ''1.0.0.0/16'', Country = ''CN''\<rparr>,
            \<lparr>Network = ''2.0.0.0/24'', Country = ''CN''\<rparr>,
            \<lparr>Network = ''4.0.0.0/8'', Country = ''IR''\<rparr>,
            \<lparr>Network = ''3.0.0.0/8'', Country = ''IR''\<rparr>]
   \<and> expand_df reversing_lib
       [\<lparr>Network = ''1.0.0.0/16'', Country = ''CN''\<rparr>,
        \<lparr>Network = ''2.0.0.0/24'', Country = ''CN''\<rparr>,
        \<lparr>Network = ''4.0.0.0/8'', Country = ''IR''\<rparr>,
        \<lparr>Network = ''3.0.0.0/8'', Country = ''IR''\<rparr>]
     = Inr [\<lparr>Network = ''1.0.0.0/16'', Country = ''CN''\<rparr>,
            \<lparr>Network = ''2.0.0.0/24'', Country = ''CN''\<rparr>,
            \<lparr>Network = ''3.0.0.0/8'', Country = ''IR''\<rparr>,
            \<lparr>Network = ''4.0.0.0/8'', Country = ''IR''\<rparr>]"
  by (intro conjI) (rule lib_ok_reversing_lib expand_df_reversing_once expand_df_reversing_twice)+

lemma expand_df_stable_example:
  "expand_df stable_lib [\<lparr>Network = ''203.0.113.5/32'', Country = ''IR''\<rparr>,
                          \<lparr>Network = ''198.51.100.0/28'', Country = ''CN''\<rparr>,
                          \<lparr>Network = ''198.51.100.0/24'', Country = ''CN''\<rparr>]
   = Inr [\<lparr>Network = ''198.51.100.0/24'', Country = ''CN''\<rparr>,
          \<lparr>Network = ''203.0.113.0/24'', Country = ''IR''\<rparr>]"
  by (simp add: expand_df_def split_row_def py_int_24 py_int_28 py_int_32 extend_item_def
      sort_values_def stable_lib_def drop_duplicates_def reassemble_def py_str_def
      digits.simps digit_char_simps)

theorem expand_df_twice_witness:
  "expand_df stable_lib [\<lparr>Network = ''198.51.100.0/24'', Country = ''CN''\<rparr>,
          \<lparr>Network = ''203.0.113.0/24'', Country = ''IR''\<rparr>]
   = Inr [\<lparr>Network = ''198.51.100.0/24'', Country = ''CN''\<rparr>,
          \<lparr>Network = ''203.0.113.0/24'', Country = ''IR''\<rparr>]"
proof -
  have st: "sort_subnet stable_lib = sort_key Subnet \<and> sort_country stable_lib = sort_key Country"
    by (simp add: stable_lib_def)
  from expand_df_twice [OF lib_ok_stable_lib expand_df_stable_example]
  obtain out2 where o: "expand_df stable_lib [\<lparr>Network = ''198.51.100.0/24'', Country = ''CN''\<rparr>,
          \<lparr>Network = ''203.0.113.0/24'', Country = ''IR''\<rparr>] = Inr out2"
    and e: "sort_subnet stable_lib = sort_key Subnet \<and> sort_country stable_lib = sort_key Country
                \<longrightarrow> out2 = [\<lparr>Network = ''198.51.100.0/24'', Country = ''CN''\<rparr>,
          \<lparr>Network = ''203.0.113.0/24'', Country = ''IR''\<rparr>]"
    by (elim exE conjE)
  from e st have "out2 = [\<lparr>Network = ''198.51.100.0/24'', Country = ''CN''\<rparr>,
          \<lparr>Network = ''203.0.113.0/24'', Country = ''IR''\<rparr>]" by (rule mp)
  with o show ?thesis by simp
qed

subsection \<open>The run only reads until it writes its result\<close>

lemma reads_only_return: "reads_only (return_io x)"
  unfolding reads_only_def return_io_def
  by (intro allI exI [of _ "[]"]) simp

lemma reads_only_raise: "reads_only (raise_io e)"
  unfolding reads_only_def raise_io_def
  by (intro allI exI [of _ "[]"]) simp

lemma reads_only_lift: "reads_only (lift_result r)"
  by (cases r) (simp_all add: lift_result_def reads_only_return reads_only_raise)

lemma reads_only_open_file: "reads_only (open_file p)"
  unfolding reads_only_def
proof
  fix w
  show "\<exists>ps. snd (open_file p w) = w\<lparr>reads := reads w @ ps\<rparr>"
  proof (cases "files w p")
    case None
    then have "snd (open_file p w) = w\<lparr>reads := reads w @ []\<rparr>" by (simp add: open_file_def)
    then show ?thesis ..
  next
    case (Some f)
    show ?thesis
    proof (cases "f = Directory")
      case True
      with Some have "snd (open_file p w) = w\<lparr>reads := reads w @ []\<rparr>"
        by (simp add: open_file_def)
      then show ?thesis ..
    next
      case False
      with Some have "snd (open_file p w) = w\<lparr>reads := reads w @ [p]\<rparr>"
        by (cases f) (simp_all add: open_file_def)
      then show ?thesis ..
    qed
  qed
qed

lemma reads_only_then:
  assumes "reads_only m" and "\<And>x. reads_only (f x)"
  shows "reads_only (then_io m f)"
  unfolding reads_only_def
proof
  fix w
  obtain r w1 where mw: "m w = (r, w1)" by (cases "m w")
  from assms(1) obtain ps where "snd (m w) = w\<lparr>reads := reads w @ ps\<rparr>"
    unfolding reads_only_def by blast
  with mw have w1: "w1 = w\<lparr>reads := reads w @ ps\<rparr>" by simp
  show "\<exists>qs. snd (then_io m f w) = w\<lparr>reads := reads w @ qs\<rparr>"
  proof (cases r)
    case (Inl e)
    with mw w1 have "snd (then_io m f w) = w\<lparr>reads := reads w @ ps\<rparr>"
      by (simp add: then_io_def)
    then show ?thesis ..
  next
    case (Inr x)
    from assms(2) [of x] obtain qs where
      qs: "snd (f x w1) = w1\<lparr>reads := reads w1 @ qs\<rparr>"
      unfolding reads_only_def by blast
    from Inr mw have "then_io m f w = f x w1" by (simp add: then_io_def)
    with qs w1 have "snd (then_io m f w) = w\<lparr>reads := reads w @ (ps @ qs)\<rparr>" by simp
    then show ?thesis ..
  qed
qed

lemma reads_only_cond:
  assumes "reads_only m" and "reads_only m'"
  shows "reads_only (if c then m else m')"
  using assms by simp

lemma reads_only_if:
  assumes "reads_only m" and "reads_only m'"
  shows "reads_only (\<lambda>w. if c w then m w else m' w)"
  using assms unfolding reads_only_def by simp

lemma reads_only_case_file:
  assumes "\<And>x. reads_only (a x)" "\<And>x. reads_only (b x)" "\<And>x. reads_only (c x)"
    "\<And>x. reads_only (d x)" "\<And>x. reads_only (e x)" "reads_only z"
  shows "reads_only (case f of Directory \<Rightarrow> z | RangeCsv x \<Rightarrow> a x | LocationsCsv x \<Rightarrow> b x
           | BlocksCsv x \<Rightarrow> c x | CidrCsv x \<Rightarrow> d x | ItoXls x \<Rightarrow> e x)"
  using assms by (cases f) simp_all

lemma reads_only_load_dbip_csv: "reads_only (load_dbip_csv p c)"
  unfolding load_dbip_csv_def Let_def
  by (intro reads_only_then reads_only_open_file reads_only_case_file reads_only_return
      reads_only_raise)

lemma reads_only_extract_geo_id: "reads_only (extract_geo_id p c)"
  unfolding extract_geo_id_def
  by (intro reads_only_then reads_only_open_file reads_only_case_file reads_only_raise)
     (simp add: reads_only_return reads_only_raise split: list.splits)

lemma reads_only_extract_geolite2_cidr: "reads_only (extract_geolite2_cidr p g c)"
  unfolding extract_geolite2_cidr_def Let_def
  by (intro reads_only_then reads_only_open_file reads_only_case_file reads_only_return
      reads_only_raise)

lemma reads_only_load_geolite2_csv: "reads_only (load_geolite2_csv d g)"
  unfolding load_geolite2_csv_def
  by (intro reads_only_then reads_only_extract_geo_id reads_only_extract_geolite2_cidr
      reads_only_return)

lemma reads_only_read_ito_db: "reads_only (read_ito_db p)"
  unfolding read_ito_db_def
  by (intro reads_only_then reads_only_open_file reads_only_case_file reads_only_return
      reads_only_raise)

lemma reads_only_read_cidr_csv: "reads_only (read_cidr_csv p)"
  unfolding read_cidr_csv_def
  by (intro reads_only_then reads_only_open_file reads_only_case_file reads_only_return
      reads_only_raise)

lemma reads_only_concat_if_file: "reads_only (concat_if_file p a)"
  unfolding concat_if_file_def
  by (intro reads_only_if reads_only_then reads_only_read_cidr_csv reads_only_return)

lemma reads_only_aggregate_geolocation: "reads_only (aggregate_geolocation l g a)"
  unfolding aggregate_geolocation_def
  by (intro reads_only_then reads_only_load_dbip_csv reads_only_lift
      reads_only_load_geolite2_csv reads_only_concat_if_file reads_only_cond
      reads_only_read_ito_db reads_only_return)

lemma reads_only_aggregate: "reads_only (aggregate l gs a)"
  by (induction gs arbitrary: a)
     (simp_all add: reads_only_return reads_only_then reads_only_aggregate_geolocation)

lemma reads_only_result:
  assumes "reads_only m" and "m w = (r, w')"
  shows "files w' = files w \<and> written w' = written w \<and> made_dirs w' = made_dirs w"
proof -
  from assms(1) obtain ps where "snd (m w) = w\<lparr>reads := reads w @ ps\<rparr>"
    unfolding reads_only_def by blast
  with assms(2) have "w' = w\<lparr>reads := reads w @ ps\<rparr>" by simp
  then show ?thesis by simp
qed

subsection \<open>Optional sources\<close>

lemmas path_defs = export_dir_path_def data_dir_path_def geolite2_db_dir_def
  autonomous_systems_db_dir_def manual_db_dir_def dbip_filename_def ito_excel_filename_def

lemmas io_defs = then_io_def return_io_def raise_io_def open_file_def lift_result_def

lemmas adapter_defs = load_dbip_csv_def extract_geo_id_def load_geolite2_csv_def
  extract_geolite2_cidr_def read_ito_db_def concat_df_def is_file_def read_cidr_csv_def
  concat_if_file_def drop_rename_stamp_def series_eq_def

lemma concat_if_file_absent: "\<not> is_file w p \<Longrightarrow> concat_if_file p a w = (Inr a, w)"
  by (simp add: concat_if_file_def return_io_def)

lemma agree_on_refl: "agree_on fs f f"
  by (simp add: agree_on_def)

lemma agree_on_then:
  assumes "reads_only m" and "\<And>x. agree_on fs (f x) (g x)"
  shows "agree_on fs (then_io m f) (then_io m g)"
  unfolding agree_on_def
proof (intro allI impI)
  fix w :: world assume fs: "files w = fs"
  obtain r w1 where mw: "m w = (r, w1)" by (cases "m w")
  from reads_only_result [OF assms(1) mw] fs have "files w1 = fs" by simp
  with assms(2) have "f x w1 = g x w1" for x by (simp add: agree_on_def)
  with mw show "then_io m f w = then_io m g w"
    by (cases r) (simp_all add: then_io_def)
qed

lemma agree_on_skip:
  assumes "\<not> is_file \<lparr>files = fs, reads = [], made_dirs = [], written = []\<rparr> p"
    and "agree_on fs (f a) g"
  shows "agree_on fs (then_io (concat_if_file p a) f) g"
  unfolding agree_on_def
proof (intro allI impI)
  fix w :: world assume fs: "files w = fs"
  with assms(1) have "\<not> is_file w p" by (simp add: is_file_def)
  then have "concat_if_file p a w = (Inr a, w)" by (rule concat_if_file_absent)
  then have "then_io (concat_if_file p a) f w = f a w" by (simp add: then_io_def)
  with assms(2) fs show "then_io (concat_if_file p a) f w = g w" by (simp add: agree_on_def)
qed

lemma is_file_files: "files w = files w' \<Longrightarrow> is_file w p = is_file w' p"
  by (simp add: is_file_def)

lemma aggregate_geolocation_agree:
  assumes "\<forall>p \<in> set (optional_paths (snd g)).
             \<not> is_file \<lparr>files = fs, reads = [], made_dirs = [], written = []\<rparr> p"
  shows "agree_on fs (aggregate_geolocation l g a) (aggregate_mandatory l g a)"
proof -
  let ?w = "\<lparr>files = fs, reads = [], made_dirs = [], written = []\<rparr>"
  from assms have
    p1: "\<not> is_file ?w (autonomous_systems_db_dir @ ''/ipv4_'' @ snd g @ ''.csv'')" and
    p2: "\<not> is_file ?w (autonomous_systems_db_dir @ ''/ipv6_'' @ snd g @ ''.csv'')" and
    p3: "\<not> is_file ?w (manual_db_dir @ ''/ipv4_'' @ snd g @ ''.csv'')" and
    p4: "\<not> is_file ?w (manual_db_dir @ ''/ipv6_'' @ snd g @ ''.csv'')"
    by (simp_all add: optional_paths_def)
  show ?thesis
    unfolding aggregate_geolocation_def aggregate_mandatory_def Let_def
    by (intro agree_on_then reads_only_load_dbip_csv reads_only_lift
        reads_only_load_geolite2_csv agree_on_skip [OF p1] agree_on_skip [OF p2]
        agree_on_skip [OF p3] agree_on_skip [OF p4] agree_on_refl)
qed

lemma reads_only_aggregate_mandatory: "reads_only (aggregate_mandatory l g a)"
  unfolding aggregate_mandatory_def Let_def
  by (intro reads_only_then reads_only_load_dbip_csv reads_only_lift
      reads_only_load_geolite2_csv reads_only_cond reads_only_read_ito_db reads_only_return)

lemma aggregate_agree:
  assumes "\<forall>g \<in> set gs. \<forall>p \<in> set (optional_paths (snd g)).
             \<not> is_file \<lparr>files = fs, reads = [], made_dirs = [], written = []\<rparr> p"
  shows "agree_on fs (aggregate l gs a) (aggregate_without_optional l gs a)"
  using assms
proof (induction gs arbitrary: a)
  case Nil
  show ?case by (simp add: agree_on_refl)
next
  case (Cons g gs)
  from Cons.prems have g: "\<forall>p \<in> set (optional_paths (snd g)).
             \<not> is_file \<lparr>files = fs, reads = [], made_dirs = [], written = []\<rparr> p" by simp
  from Cons.prems have rest: "\<forall>g \<in> set gs. \<forall>p \<in> set (optional_paths (snd g)).
             \<not> is_file \<lparr>files = fs, reads = [], made_dirs = [], written = []\<rparr> p" by simp
  have step: "agree_on fs (then_io (aggregate_mandatory l g a) (aggregate l gs))
                (then_io (aggregate_mandatory l g a) (aggregate_without_optional l gs))"
    by (intro agree_on_then reads_only_aggregate_mandatory Cons.IH [OF rest])
  have first: "agree_on fs (then_io (aggregate_geolocation l g a) (aggregate l gs))
                (then_io (aggregate_mandatory l g a) (aggregate l gs))"
    unfolding agree_on_def
  proof (intro allI impI)
    fix w :: world assume "files w = fs"
    with aggregate_geolocation_agree [OF g, of l a]
    have "aggregate_geolocation l g a w = aggregate_mandatory l g a w"
      by (simp add: agree_on_def)
    then show "then_io (aggregate_geolocation l g a) (aggregate l gs) w
             = then_io (aggregate_mandatory l g a) (aggregate l gs) w"
      by (simp add: then_io_def)
  qed
  from first step show ?case by (simp add: agree_on_def)
qed

lemma aggregate_example:
  "aggregate stable_lib geolocations ([], []) example_world =
   (Inr ([\<lparr>Network = ''2.144.0.0/14'', Country = ''IR''\<rparr>,
          \<lparr>Network = ''5.1.2.3/32'', Country = ''IR''\<rparr>],
         [\<lparr>Network = ''2001:db8::/32'', Country = ''IR''\<rparr>]),
    example_world\<lparr>reads :=
       [''./Data/dbip-country-lite-2023-01.csv'',
        ''./Data/GeoLite2/GeoLite2-Country-Locations-en.csv'',
        ''./Data/GeoLite2/GeoLite2-Country-Blocks-IPv4.csv'',
        ''./Data/GeoLite2/GeoLite2-Country-Blocks-IPv6.csv'',
        ''./Data/Export-14011020215714.xls'',
        ''./Data/dbip-country-lite-2023-01.csv'',
        ''./Data/GeoLite2/GeoLite2-Country-Locations-en.csv'',
        ''./Data/GeoLite2/GeoLite2-Country-Blocks-IPv4.csv'',
        ''./Data/GeoLite2/GeoLite2-Country-Blocks-IPv6.csv'',
        ''./Data/dbip-country-lite-2023-01.csv'',
        ''./Data/GeoLite2/GeoLite2-Country-Locations-en.csv'',
        ''./Data/GeoLite2/GeoLite2-Country-Blocks-IPv4.csv'',
        ''./Data/GeoLite2/GeoLite2-Country-Blocks-IPv6.csv'']\<rparr>)"
  by (simp add: geolocations_def aggregate_geolocation_def path_defs io_defs adapter_defs
      example_world_def example_files_def example_locations_def)

lemma py_int_14: "py_int ''14'' = Some 14"
  by (simp add: py_int_def strip_def is_space_def parse_digits_def is_digit_def digit_val_def)

lemma expand_df_example:
  "expand_df stable_lib [\<lparr>Network = ''2.144.0.0/14'', Country = ''IR''\<rparr>,
                          \<lparr>Network = ''5.1.2.3/32'', Country = ''IR''\<rparr>]
   = Inr [\<lparr>Network = ''2.144.0.0/14'', Country = ''IR''\<rparr>,
          \<lparr>Network = ''5.1.2.0/24'', Country = ''IR''\<rparr>]"
  by (simp add: expand_df_def split_row_def py_int_14 py_int_32 extend_item_def
      sort_values_def stable_lib_def drop_duplicates_def reassemble_def py_str_def
      digits.simps digit_char_simps)

lemma to_csv_example:
  "to_csv [\<lparr>Network = ''2.144.0.0/14'', Country = ''IR''\<rparr>,
           \<lparr>Network = ''5.1.2.0/24'', Country = ''IR''\<rparr>,
           \<lparr>Network = ''2001:db8::/32'', Country = ''IR''\<rparr>]
   = [''Network,Country'', ''2.144.0.0/14,IR'', ''5.1.2.0/24,IR'', ''2001:db8::/32,IR'']"
  by (simp add: to_csv_def csv_line_def csv_field_def)

lemma main_success:
  assumes "files w data_dir_path \<noteq> None"
    and "aggregate l geolocations ([], []) w = (Inr (v4, v6), w1)"
    and "expand_df l (drop_duplicates id v4) = Inr out4"
    and "makedirs export_dir_path w1 = (Inr (), w2)"
  shows "main l w =
     (Inr (), w2\<lparr>written := written w2 @
        [(export_dir_path @ ''/agg_cidrs.csv'', to_csv (out4 @ drop_duplicates id v6))]\<rparr>)"
  using assms(1)
  by (simp add: main_def assms(2,3,4) then_io_def lift_result_def return_io_def
      write_file_def concat_df_def)

lemma main_example:
  "main stable_lib example_world =
   (Inr (), example_world\<lparr>reads :=
       [''./Data/dbip-country-lite-2023-01.csv'',
        ''./Data/GeoLite2/GeoLite2-Country-Locations-en.csv'',
        ''./Data/GeoLite2/GeoLite2-Country-Blocks-IPv4.csv'',
        ''./Data/GeoLite2/GeoLite2-Country-Blocks-IPv6.csv'',
        ''./Data/Export-14011020215714.xls'',
        ''./Data/dbip-country-lite-2023-01.csv'',
        ''./Data/GeoLite2/GeoLite2-Country-Locations-en.csv'',
        ''./Data/GeoLite2/GeoLite2-Country-Blocks-IPv4.csv'',
        ''./Data/GeoLite2/GeoLite2-Country-Blocks-IPv6.csv'',
        ''./Data/dbip-country-lite-2023-01.csv'',
        ''./Data/GeoLite2/GeoLite2-Country-Locations-en.csv'',
        ''./Data/GeoLite2/GeoLite2-Country-Blocks-IPv4.csv'',
        ''./Data/GeoLite2/GeoLite2-Country-Blocks-IPv6.csv''],
      made_dirs := [''./Aggregated_Data''],
      written := [(''./Aggregated_Data/agg_cidrs.csv'',
         [''Network,Country'', ''2.144.0.0/14,IR'', ''5.1.2.0/24,IR'', ''2001:db8::/32,IR''])]\<rparr>)"
proof -
  let ?rs = "[''./Data/dbip-country-lite-2023-01.csv'',
        ''./Data/GeoLite2/GeoLite2-Country-Locations-en.csv'',
        ''./Data/GeoLite2/GeoLite2-Country-Blocks-IPv4.csv'',
        ''./Data/GeoLite2/GeoLite2-Country-Blocks-IPv6.csv'',
        ''./Data/Export-14011020215714.xls'',
        ''./Data/dbip-country-lite-2023-01.csv'',
        ''./Data/GeoLite2/GeoLite2-Country-Locations-en.csv'',
        ''./Data/GeoLite2/GeoLite2-Country-Blocks-IPv4.csv'',
        ''./Data/GeoLite2/GeoLite2-Country-Blocks-IPv6.csv'',
        ''./Data/dbip-country-lite-2023-01.csv'',
        ''./Data/GeoLite2/GeoLite2-Country-Locations-en.csv'',
        ''./Data/GeoLite2/GeoLite2-Country-Blocks-IPv4.csv'',
        ''./Data/GeoLite2/GeoLite2-Country-Blocks-IPv6.csv'']"
  have d: "files example_world data_dir_path \<noteq> None"
    by (simp add: example_world_def example_files_def data_dir_path_def)
  have dd4: "expand_df stable_lib (drop_duplicates id [\<lparr>Network = ''2.144.0.0/14'', Country = ''IR''\<rparr>,
          \<lparr>Network = ''5.1.2.3/32'', Country = ''IR''\<rparr>])
     = Inr [\<lparr>Network = ''2.144.0.0/14'', Country = ''IR''\<rparr>,
          \<lparr>Network = ''5.1.2.0/24'', Country = ''IR''\<rparr>]"
    by (simp add: drop_duplicates_def expand_df_example)
  have dd6: "drop_duplicates id [\<lparr>Network = ''2001:db8::/32'', Country = ''IR''\<rparr>]
     = [\<lparr>Network = ''2001:db8::/32'', Country = ''IR''\<rparr>]"
    by (simp add: drop_duplicates_def)
  have mk: "makedirs export_dir_path (example_world\<lparr>reads := ?rs\<rparr>)
     = (Inr (), example_world\<lparr>reads := ?rs, made_dirs := [''./Aggregated_Data'']\<rparr>)"
    by (simp add: makedirs_def export_dir_path_def example_world_def example_files_def)
  show ?thesis
    unfolding main_success [OF d aggregate_example dd4 mk] dd6
    by (simp add: to_csv_example export_dir_path_def example_world_def)
qed

lemma optional_absent_example:
  "\<forall>g \<in> set geolocations. \<forall>p \<in> set (optional_paths (snd g)). \<not> is_file example_world p"
  by (simp add: geolocations_def optional_paths_def is_file_def path_defs example_world_def
      example_files_def)

lemma is_file_plain:
  "is_file \<lparr>files = files w, reads = [], made_dirs = [], written = []\<rparr> p = is_file w p"
  by (simp add: is_file_def)

text \<open>
  C7. An optional autonomous-system or manual file that is not there is not an error:
  its step returns the frame aggregated so far, unchanged, and reads nothing. With the
  four optional files of a country absent, the loop body for that country does exactly
  what the body without optional sources does, and with all of them absent so does the
  whole loop. In the first example world no optional file exists and the run completes:
  it returns, the exit status is 0 and the output file is written.
\<close>

theorem optional_sources_absent:
  "(\<not> is_file w p \<longrightarrow> concat_if_file p frame w = (Inr frame, w))
   \<and> ((\<forall>p \<in> set (optional_paths (snd geolocation)). \<not> is_file w p)
        \<longrightarrow> aggregate_geolocation l geolocation aggregated w
            = aggregate_mandatory l geolocation aggregated w)
   \<and> ((\<forall>g \<in> set geolocations. \<forall>p \<in> set (optional_paths (snd g)). \<not> is_file w p)
        \<longrightarrow> aggregate l geolocations ([], []) w
            = aggregate_without_optional l geolocations ([], []) w)
   \<and> (\<forall>g \<in> set geolocations. \<forall>p \<in> set (optional_paths (snd g)). \<not> is_file example_world p)
   \<and> fst (main stable_lib example_world) = Inr ()
   \<and> exit_status (fst (main stable_lib example_world)) = 0
   \<and> written (snd (main stable_lib example_world)) =
       [(''./Aggregated_Data/agg_cidrs.csv'',
         [''Network,Country'', ''2.144.0.0/14,IR'', ''5.1.2.0/24,IR'', ''2001:db8::/32,IR''])]"
proof (intro conjI impI)
  assume "\<not> is_file w p"
  then show "concat_if_file p frame w = (Inr frame, w)" by (rule concat_if_file_absent)
next
  assume "\<forall>p \<in> set (optional_paths (snd geolocation)). \<not> is_file w p"
  then have "\<forall>p \<in> set (optional_paths (snd geolocation)).
      \<not> is_file \<lparr>files = files w, reads = [], made_dirs = [], written = []\<rparr> p"
    by (simp add: is_file_plain)
  from aggregate_geolocation_agree [OF this, of l aggregated]
  show "aggregate_geolocation l geolocation aggregated w
            = aggregate_mandatory l geolocation aggregated w"
    by (simp add: agree_on_def)
next
  assume "\<forall>g \<in> set geolocations. \<forall>p \<in> set (optional_paths (snd g)). \<not> is_file w p"
  then have "\<forall>g \<in> set geolocations. \<forall>p \<in> set (optional_paths (snd g)).
      \<not> is_file \<lparr>files = files w, reads = [], made_dirs = [], written = []\<rparr> p"
    by (simp add: is_file_plain)
  from aggregate_agree [OF this, of l "([], [])"]
  show "aggregate l geolocations ([], []) w
            = aggregate_without_optional l geolocations ([], []) w"
    by (simp add: agree_on_def)
next
  show "\<forall>g \<in> set geolocations. \<forall>p \<in> set (optional_paths (snd g)). \<not> is_file example_world p"
    by (rule optional_absent_example)
next
  show "fst (main stable_lib example_world) = Inr ()" by (simp add: main_example)
next
  show "exit_status (fst (main stable_lib example_world)) = 0"
    by (simp add: main_example exit_status_def)
next
  show "written (snd (main stable_lib example_world)) =
       [(''./Aggregated_Data/agg_cidrs.csv'',
         [''Network,Country'', ''2.144.0.0/14,IR'', ''5.1.2.0/24,IR'', ''2001:db8::/32,IR''])]"
    by (simp add: main_example)
qed

theorem optional_sources_absent_witness:
  "concat_if_file ''./Data/AS_CIDRs/ipv4_IR.csv'' [] example_world = (Inr [], example_world)
   \<and> aggregate_geolocation stable_lib (''Iran'', ''IR'') ([], []) example_world
       = aggregate_mandatory stable_lib (''Iran'', ''IR'') ([], []) example_world
   \<and> aggregate stable_lib geolocations ([], []) example_world
       = aggregate_without_optional stable_lib geolocations ([], []) example_world"
proof -
  note t = optional_sources_absent
    [of example_world "''./Data/AS_CIDRs/ipv4_IR.csv''" "[]" "(''Iran'', ''IR'')" stable_lib
        "([], [])"]
  have a1: "\<not> is_file example_world ''./Data/AS_CIDRs/ipv4_IR.csv''"
    by (simp add: is_file_def example_world_def example_files_def)
  have a2: "\<forall>p \<in> set (optional_paths (snd (''Iran'', ''IR''))). \<not> is_file example_world p"
    by (simp add: optional_paths_def is_file_def path_defs example_world_def example_files_def)
  note a3 = t [THEN conjunct2, THEN conjunct2, THEN conjunct2, THEN conjunct1]
  show ?thesis
    by (intro conjI)
       (rule t [THEN conjunct1, THEN mp, OF a1]
             t [THEN conjunct2, THEN conjunct1, THEN mp, OF a2]
             t [THEN conjunct2, THEN conjunct2, THEN conjunct1, THEN mp, OF a3])+
qed



subsection \<open>The empty IPv4 frame\<close>

lemma expand_df_Nil: "expand_df l [] = Inl (KeyError ''Subnet'')"
  by (simp add: expand_df_def sort_values_def)

text \<open>
  C10 as stated names the wrong column: on the empty frame \<^verbatim>\<open>expand_df\<close> raises at its
  first sort, \<^verbatim>\<open>KeyError\<close> on \<^verbatim>\<open>Subnet\<close>, and never reaches the sort on \<^verbatim>\<open>Country\<close>.
\<close>

theorem expand_df_empty_counterexample:
  "expand_df stable_lib [] = Inl (KeyError ''Subnet'')
   \<and> expand_df stable_lib [] \<noteq> Inl (KeyError ''Country'')"
  by (simp add: expand_df_Nil)

text \<open>
  C10 (as amended). On the empty frame \<^verbatim>\<open>expand_df\<close> fails rather than returning an empty
  result: the frame built from the empty list of split entries has no \<^verbatim>\<open>Subnet\<close> column
  to sort on. So a run in which no source contributes an IPv4 record ends with that
  exception after the sources are read: no directory is made, no file is written, and
  the exit status is 1.
\<close>

theorem expand_df_empty_fails:
  "expand_df l [] = Inl (KeyError ''Subnet'')
   \<and> (files w data_dir_path \<noteq> None
        \<and> aggregate l geolocations ([], []) w = (Inr ([], v6), w')
      \<longrightarrow> main l w = (Inl (KeyError ''Subnet''), w')
          \<and> written w' = written w \<and> made_dirs w' = made_dirs w
          \<and> exit_status (fst (main l w)) = 1)"
proof (rule conjI)
  show "expand_df l [] = Inl (KeyError ''Subnet'')" by (rule expand_df_Nil)
next
  show "files w data_dir_path \<noteq> None
        \<and> aggregate l geolocations ([], []) w = (Inr ([], v6), w')
      \<longrightarrow> main l w = (Inl (KeyError ''Subnet''), w')
          \<and> written w' = written w \<and> made_dirs w' = made_dirs w
          \<and> exit_status (fst (main l w)) = 1"
  proof (rule impI)
  assume a: "files w data_dir_path \<noteq> None
        \<and> aggregate l geolocations ([], []) w = (Inr ([], v6), w')"
  then have agg: "aggregate l geolocations ([], []) w = (Inr ([], v6), w')" by simp
  from a have m: "main l w = (Inl (KeyError ''Subnet''), w')"
    by (simp add: main_def then_io_def lift_result_def raise_io_def drop_duplicates_def
        expand_df_Nil)
  from reads_only_result [OF reads_only_aggregate agg]
  have keep: "written w' = written w" "made_dirs w' = made_dirs w" by simp_all
  show "main l w = (Inl (KeyError ''Subnet''), w')
          \<and> written w' = written w \<and> made_dirs w' = made_dirs w
          \<and> exit_status (fst (main l w)) = 1"
    by (simp add: m keep exit_status_def)
  qed
qed

lemma aggregate_no_ipv4:
  "aggregate stable_lib geolocations ([], []) no_ipv4_world =
   (Inr ([], [\<lparr>Network = ''2001:db8::/32'', Country = ''IR''\<rparr>]),
    no_ipv4_world\<lparr>reads :=
       [''./Data/dbip-country-lite-2023-01.csv'',
        ''./Data/GeoLite2/GeoLite2-Country-Locations-en.csv'',
        ''./Data/GeoLite2/GeoLite2-Country-Blocks-IPv4.csv'',
        ''./Data/GeoLite2/GeoLite2-Country-Blocks-IPv6.csv'',
        ''./Data/Export-14011020215714.xls'',
        ''./Data/dbip-country-lite-2023-01.csv'',
        ''./Data/GeoLite2/GeoLite2-Country-Locations-en.csv'',
        ''./Data/GeoLite2/GeoLite2-Country-Blocks-IPv4.csv'',
        ''./Data/GeoLite2/GeoLite2-Country-Blocks-IPv6.csv'',
        ''./Data/dbip-country-lite-2023-01.csv'',
        ''./Data/GeoLite2/GeoLite2-Country-Locations-en.csv'',
        ''./Data/GeoLite2/GeoLite2-Country-Blocks-IPv4.csv'',
        ''./Data/GeoLite2/GeoLite2-Country-Blocks-IPv6.csv'']\<rparr>)"
  by (simp add: geolocations_def aggregate_geolocation_def path_defs io_defs adapter_defs
      no_ipv4_world_def example_files_def example_locations_def)

theorem expand_df_empty_fails_witness:
  "fst (main stable_lib no_ipv4_world) = Inl (KeyError ''Subnet'')
   \<and> written (snd (main stable_lib no_ipv4_world)) = []
   \<and> made_dirs (snd (main stable_lib no_ipv4_world)) = []
   \<and> exit_status (fst (main stable_lib no_ipv4_world)) = 1"
proof -
  have d: "files no_ipv4_world data_dir_path \<noteq> None"
    by (simp add: no_ipv4_world_def example_files_def data_dir_path_def)
  note t = expand_df_empty_fails [THEN conjunct2, THEN mp, OF conjI, OF d aggregate_no_ipv4]
  have w: "written no_ipv4_world = []" "made_dirs no_ipv4_world = []"
    by (simp_all add: no_ipv4_world_def)
  let ?w1 = "no_ipv4_world\<lparr>reads :=
       [''./Data/dbip-country-lite-2023-01.csv'',
        ''./Data/GeoLite2/GeoLite2-Country-Locations-en.csv'',
        ''./Data/GeoLite2/GeoLite2-Country-Blocks-IPv4.csv'',
        ''./Data/GeoLite2/GeoLite2-Country-Blocks-IPv6.csv'',
        ''./Data/Export-14011020215714.xls'',
        ''./Data/dbip-country-lite-2023-01.csv'',
        ''./Data/GeoLite2/GeoLite2-Country-Locations-en.csv'',
        ''./Data/GeoLite2/GeoLite2-Country-Blocks-IPv4.csv'',
        ''./Data/GeoLite2/GeoLite2-Country-Blocks-IPv6.csv'',
        ''./Data/dbip-country-lite-2023-01.csv'',
        ''./Data/GeoLite2/GeoLite2-Country-Locations-en.csv'',
        ''./Data/GeoLite2/GeoLite2-Country-Blocks-IPv4.csv'',
        ''./Data/GeoLite2/GeoLite2-Country-Blocks-IPv6.csv'']\<rparr>"
  from t have m: "main stable_lib no_ipv4_world = (Inl (KeyError ''Subnet''), ?w1)"
    by (rule conjunct1)
  have e: "exit_status (fst (main stable_lib no_ipv4_world)) = 1"
    by (rule t [THEN conjunct2, THEN conjunct2, THEN conjunct2])
  have f: "fst (main stable_lib no_ipv4_world) = Inl (KeyError ''Subnet'')"
    unfolding m by simp
  have wr: "written (snd (main stable_lib no_ipv4_world)) = []"
    unfolding m by (simp add: w)
  have md: "made_dirs (snd (main stable_lib no_ipv4_world)) = []"
    unfolding m by (simp add: w)
  show ?thesis by (intro conjI) (rule f wr md e)+
qed

subsection \<open>What the run writes\<close>

lemma drop_duplicates_id_set: "set (drop_duplicates id xs) = set xs"
  using drop_dups_from_keys [of id "[]" xs] by (simp add: drop_duplicates_def)

lemma drop_duplicates_id_distinct: "distinct (drop_duplicates id xs)"
  using drop_dups_from_distinct [of id "[]" xs] by (simp add: drop_duplicates_def)

lemma drop_duplicates_id_same: "distinct xs \<Longrightarrow> drop_duplicates id xs = xs"
  using drop_dups_from_id [of id xs "[]"] by (simp add: drop_duplicates_def)

lemma makedirs_written: "makedirs p w = (r, w2) \<Longrightarrow> written w2 = written w"
  by (auto simp: makedirs_def split: option.splits file_content.splits)

lemma main_success_parts:
  assumes "main l w = (Inr (), w')"
  shows "\<exists>v4 v6 w1 out4 w2. files w data_dir_path \<noteq> None
           \<and> aggregate l geolocations ([], []) w = (Inr (v4, v6), w1)
           \<and> expand_df l (drop_duplicates id v4) = Inr out4
           \<and> makedirs export_dir_path w1 = (Inr (), w2)"
proof -
  have d: "files w data_dir_path \<noteq> None"
  proof
    assume "files w data_dir_path = None"
    then have "main l w = (Inl (SystemExit 0), w)" by (simp add: main_def raise_io_def)
    with assms show False by simp
  qed
  obtain r w1 where agg: "aggregate l geolocations ([], []) w = (r, w1)"
    by (cases "aggregate l geolocations ([], []) w")
  have "\<exists>v4 v6. r = Inr (v4, v6)"
  proof (cases r)
    case (Inl e)
    with d agg have "main l w = (Inl e, w1)" by (simp add: main_def then_io_def)
    with assms show ?thesis by simp
  next
    case (Inr a)
    then show ?thesis by (cases a) simp
  qed
  then obtain v4 v6 where r: "r = Inr (v4, v6)" by blast
  have "\<exists>out4. expand_df l (drop_duplicates id v4) = Inr out4"
  proof (cases "expand_df l (drop_duplicates id v4)")
    case (Inl e)
    with d agg r have "main l w = (Inl e, w1)"
      by (simp add: main_def then_io_def lift_result_def raise_io_def)
    with assms show ?thesis by simp
  next
    case (Inr a)
    then show ?thesis by simp
  qed
  then obtain out4 where ex: "expand_df l (drop_duplicates id v4) = Inr out4" ..
  obtain r2 w2 where mk: "makedirs export_dir_path w1 = (r2, w2)"
    by (cases "makedirs export_dir_path w1")
  have "r2 = Inr ()"
  proof (cases r2)
    case (Inl e)
    with d agg r ex mk have "main l w = (Inl e, w2)"
      by (simp add: main_def then_io_def lift_result_def return_io_def)
    with assms show ?thesis by simp
  next
    case (Inr a)
    then show ?thesis by simp
  qed
  with d agg r ex mk show ?thesis by blast
qed

text \<open>
  C4 (as amended). A run that completes writes one file: a header line
  \<^verbatim>\<open>Network,Country\<close> and one line per row, network first and country second, no index
  column. The rows are the result of \<^verbatim>\<open>expand_df\<close> on the aggregated IPv4 frame,
  followed by the aggregated IPv6 frame with its repeated rows dropped: every row of
  the IPv6 frame is there once, as aggregated, and a frame without repeated rows is
  there as it is. Nothing else is done to the IPv6 rows.
\<close>

theorem main_writes:
  assumes "main l w = (Inr (), w')"
  shows "\<exists>v4 v6 w1 out4.
           aggregate l geolocations ([], []) w = (Inr (v4, v6), w1)
           \<and> expand_df l (drop_duplicates id v4) = Inr out4
           \<and> written w' = written w @
                [(''./Aggregated_Data/agg_cidrs.csv'',
                  ''Network,Country'' # map csv_line (out4 @ drop_duplicates id v6))]
           \<and> set (drop_duplicates id v6) = set v6
           \<and> distinct (drop_duplicates id v6)
           \<and> (distinct v6 \<longrightarrow> drop_duplicates id v6 = v6)"
proof -
  from main_success_parts [OF assms] obtain v4 v6 w1 out4 w2 where
    p: "files w data_dir_path \<noteq> None"
       "aggregate l geolocations ([], []) w = (Inr (v4, v6), w1)"
       "expand_df l (drop_duplicates id v4) = Inr out4"
       "makedirs export_dir_path w1 = (Inr (), w2)"
    by (elim exE conjE)
  from main_success [OF p] assms
  have w': "w' = w2\<lparr>written := written w2 @
        [(export_dir_path @ ''/agg_cidrs.csv'', to_csv (out4 @ drop_duplicates id v6))]\<rparr>"
    by simp
  from reads_only_result [OF reads_only_aggregate p(2)] have "written w1 = written w" by simp
  with makedirs_written [OF p(4)] have "written w2 = written w" by simp
  with w' have wr: "written w' = written w @
                [(''./Aggregated_Data/agg_cidrs.csv'',
                  ''Network,Country'' # map csv_line (out4 @ drop_duplicates id v6))]"
    by (simp add: export_dir_path_def to_csv_def)
  have same: "distinct v6 \<longrightarrow> drop_duplicates id v6 = v6"
    by (rule impI) (rule drop_duplicates_id_same)
  show ?thesis
    by (rule exI [of _ v4], rule exI [of _ v6], rule exI [of _ w1], rule exI [of _ out4],
        intro conjI)
       (rule p(2) p(3) wr drop_duplicates_id_set drop_duplicates_id_distinct same)+
qed

lemma aggregate_duplicate:
  "aggregate stable_lib geolocations ([], []) duplicate_world =
   (Inr ([\<lparr>Network = ''2.144.0.0/14'', Country = ''IR''\<rparr>,
          \<lparr>Network = ''5.1.2.3/32'', Country = ''IR''\<rparr>],
         [\<lparr>Network = ''2001:db8::/32'', Country = ''IR''\<rparr>,
          \<lparr>Network = ''2001:db8::/32'', Country = ''IR''\<rparr>]),
    duplicate_world\<lparr>reads :=
       [''./Data/dbip-country-lite-2023-01.csv'',
        ''./Data/GeoLite2/GeoLite2-Country-Locations-en.csv'',
        ''./Data/GeoLite2/GeoLite2-Country-Blocks-IPv4.csv'',
        ''./Data/GeoLite2/GeoLite2-Country-Blocks-IPv6.csv'',
        ''./Data/AS_CIDRs/ipv6_IR.csv'',
        ''./Data/Export-14011020215714.xls'',
        ''./Data/dbip-country-lite-2023-01.csv'',
        ''./Data/GeoLite2/GeoLite2-Country-Locations-en.csv'',
        ''./Data/GeoLite2/GeoLite2-Country-Blocks-IPv4.csv'',
        ''./Data/GeoLite2/GeoLite2-Country-Blocks-IPv6.csv'',
        ''./Data/dbip-country-lite-2023-01.csv'',
        ''./Data/GeoLite2/GeoLite2-Country-Locations-en.csv'',
        ''./Data/GeoLite2/GeoLite2-Country-Blocks-IPv4.csv'',
        ''./Data/GeoLite2/GeoLite2-Country-Blocks-IPv6.csv'']\<rparr>)"
  by (simp add: geolocations_def aggregate_geolocation_def path_defs io_defs adapter_defs
      duplicate_world_def example_files_def example_locations_def)

lemma main_duplicate:
  "written (snd (main stable_lib duplicate_world)) =
     [(''./Aggregated_Data/agg_cidrs.csv'',
       [''Network,Country'', ''2.144.0.0/14,IR'', ''5.1.2.0/24,IR'', ''2001:db8::/32,IR''])]"
proof -
  let ?rs = "[''./Data/dbip-country-lite-2023-01.csv'',
        ''./Data/GeoLite2/GeoLite2-Country-Locations-en.csv'',
        ''./Data/GeoLite2/GeoLite2-Country-Blocks-IPv4.csv'',
        ''./Data/GeoLite2/GeoLite2-Country-Blocks-IPv6.csv'',
        ''./Data/AS_CIDRs/ipv6_IR.csv'',
        ''./Data/Export-14011020215714.xls'',
        ''./Data/dbip-country-lite-2023-01.csv'',
        ''./Data/GeoLite2/GeoLite2-Country-Locations-en.csv'',
        ''./Data/GeoLite2/GeoLite2-Country-Blocks-IPv4.csv'',
        ''./Data/GeoLite2/GeoLite2-Country-Blocks-IPv6.csv'',
        ''./Data/dbip-country-lite-2023-01.csv'',
        ''./Data/GeoLite2/GeoLite2-Country-Locations-en.csv'',
        ''./Data/GeoLite2/GeoLite2-Country-Blocks-IPv4.csv'',
        ''./Data/GeoLite2/GeoLite2-Country-Blocks-IPv6.csv'']"
  have d: "files duplicate_world data_dir_path \<noteq> None"
    by (simp add: duplicate_world_def example_files_def data_dir_path_def)
  have dd4: "expand_df stable_lib (drop_duplicates id [\<lparr>Network = ''2.144.0.0/14'', Country = ''IR''\<rparr>,
          \<lparr>Network = ''5.1.2.3/32'', Country = ''IR''\<rparr>])
     = Inr [\<lparr>Network = ''2.144.0.0/14'', Country = ''IR''\<rparr>,
          \<lparr>Network = ''5.1.2.0/24'', Country = ''IR''\<rparr>]"
    by (simp add: drop_duplicates_def expand_df_example)
  have dd6: "drop_duplicates id [\<lparr>Network = ''2001:db8::/32'', Country = ''IR''\<rparr>,
                                 \<lparr>Network = ''2001:db8::/32'', Country = ''IR''\<rparr>]
     = [\<lparr>Network = ''2001:db8::/32'', Country = ''IR''\<rparr>]"
    by (simp add: drop_duplicates_def)
  have mk: "makedirs export_dir_path (duplicate_world\<lparr>reads := ?rs\<rparr>)
     = (Inr (), duplicate_world\<lparr>reads := ?rs, made_dirs := [''./Aggregated_Data'']\<rparr>)"
    by (simp add: makedirs_def export_dir_path_def duplicate_world_def example_files_def)
  show ?thesis
    unfolding main_success [OF d aggregate_duplicate dd4 mk] dd6
    by (simp add: to_csv_example export_dir_path_def duplicate_world_def)
qed

text \<open>
  C4 as stated fails on the deduplication: in the second example world the aggregated
  IPv6 frame holds the network \<^verbatim>\<open>2001:db8::/32\<close> twice, once from the geo-block table
  and once from the autonomous-system file, and the file written holds it once.
\<close>

theorem main_ipv6_counterexample:
  "fst (aggregate stable_lib geolocations ([], []) duplicate_world) =
     Inr ([\<lparr>Network = ''2.144.0.0/14'', Country = ''IR''\<rparr>,
           \<lparr>Network = ''5.1.2.3/32'', Country = ''IR''\<rparr>],
          [\<lparr>Network = ''2001:db8::/32'', Country = ''IR''\<rparr>,
           \<lparr>Network = ''2001:db8::/32'', Country = ''IR''\<rparr>])
   \<and> written (snd (main stable_lib duplicate_world)) =
     [(''./Aggregated_Data/agg_cidrs.csv'',
       [''Network,Country'', ''2.144.0.0/14,IR'', ''5.1.2.0/24,IR'', ''2001:db8::/32,IR''])]"
  by (rule conjI) (simp add: aggregate_duplicate, rule main_duplicate)

theorem main_writes_witness:
  "\<exists>v4 v6 w1 out4.
      aggregate stable_lib geolocations ([], []) example_world = (Inr (v4, v6), w1)
      \<and> v6 = [\<lparr>Network = ''2001:db8::/32'', Country = ''IR''\<rparr>]
      \<and> expand_df stable_lib (drop_duplicates id v4) = Inr out4
      \<and> written (snd (main stable_lib example_world)) =
           [(''./Aggregated_Data/agg_cidrs.csv'',
             ''Network,Country'' # map csv_line (out4 @ drop_duplicates id v6))]
      \<and> drop_duplicates id v6 = v6"
proof -
  from main_writes [OF main_example] obtain v4 v6 w1 out4 where
    a: "aggregate stable_lib geolocations ([], []) example_world = (Inr (v4, v6), w1)"
    and e: "expand_df stable_lib (drop_duplicates id v4) = Inr out4"
    and wr: "written (example_world\<lparr>reads :=
       [''./Data/dbip-country-lite-2023-01.csv'',
        ''./Data/GeoLite2/GeoLite2-Country-Locations-en.csv'',
        ''./Data/GeoLite2/GeoLite2-Country-Blocks-IPv4.csv'',
        ''./Data/GeoLite2/GeoLite2-Country-Blocks-IPv6.csv'',
        ''./Data/Export-14011020215714.xls'',
        ''./Data/dbip-country-lite-2023-01.csv'',
        ''./Data/GeoLite2/GeoLite2-Country-Locations-en.csv'',
        ''./Data/GeoLite2/GeoLite2-Country-Blocks-IPv4.csv'',
        ''./Data/GeoLite2/GeoLite2-Country-Blocks-IPv6.csv'',
        ''./Data/dbip-country-lite-2023-01.csv'',
        ''./Data/GeoLite2/GeoLite2-Country-Locations-en.csv'',
        ''./Data/GeoLite2/GeoLite2-Country-Blocks-IPv4.csv'',
        ''./Data/GeoLite2/GeoLite2-Country-Blocks-IPv6.csv''],
      made_dirs := [''./Aggregated_Data''],
      written := [(''./Aggregated_Data/agg_cidrs.csv'',
         [''Network,Country'', ''2.144.0.0/14,IR'', ''5.1.2.0/24,IR'', ''2001:db8::/32,IR''])]\<rparr>)
       = written example_world @
                [(''./Aggregated_Data/agg_cidrs.csv'',
                  ''Network,Country'' # map csv_line (out4 @ drop_duplicates id v6))]"
    and same: "distinct v6 \<longrightarrow> drop_duplicates id v6 = v6"
    by (elim exE conjE)
  from a aggregate_example have v6: "v6 = [\<lparr>Network = ''2001:db8::/32'', Country = ''IR''\<rparr>]"
    by simp
  then have "distinct v6" by simp
  with same have s: "drop_duplicates id v6 = v6" by (rule mp)
  have "written example_world = []" by (simp add: example_world_def)
  with wr have wr': "written (snd (main stable_lib example_world)) =
           [(''./Aggregated_Data/agg_cidrs.csv'',
             ''Network,Country'' # map csv_line (out4 @ drop_duplicates id v6))]"
    unfolding main_example by simp
  show ?thesis
    by (rule exI [of _ v4], rule exI [of _ v6], rule exI [of _ w1], rule exI [of _ out4],
        intro conjI) (rule a v6 e wr' s)+
qed

subsection \<open>The Range-to-CIDR converter\<close>

text \<open>Bit lengths and the count of zero bits on the right.\<close>

lemma bit_length_0: "bit_length 0 = 0"
  by (simp add: bit_length.simps)

lemma bit_length_pos: "0 < n \<Longrightarrow> bit_length n = Suc (bit_length (n div 2))"
  by (subst bit_length.simps) simp

lemma bit_length_bounds: "0 < n \<Longrightarrow> 2 ^ (bit_length n - 1) \<le> n \<and> n < 2 ^ bit_length n"
proof (induction n rule: less_induct)
  case (less n)
  show ?case
  proof (cases "n div 2 = 0")
    case True
    with less.prems have "n = 1" by (auto simp: div_eq_0_iff)
    then show ?thesis by (simp add: bit_length_pos bit_length_0)
  next
    case False
    then have pos: "0 < n div 2" by simp
    have "n div 2 < n" using less.prems by simp
    from less.IH [OF this pos]
    have IH: "2 ^ (bit_length (n div 2) - 1) \<le> n div 2" "n div 2 < 2 ^ bit_length (n div 2)"
      by simp_all
    have bl: "bit_length n = Suc (bit_length (n div 2))" using less.prems by (rule bit_length_pos)
    have blp: "0 < bit_length (n div 2)" using pos by (simp add: bit_length_pos)
    then obtain k where k: "bit_length (n div 2) = Suc k" by (cases "bit_length (n div 2)") auto
    from IH(1) have "2 * 2 ^ k \<le> 2 * (n div 2)" unfolding k by simp
    also have "\<dots> \<le> n" by simp
    finally have lo: "2 ^ (bit_length n - 1) \<le> n" unfolding bl k by simp
    from IH(2) have "n div 2 + 1 \<le> 2 ^ bit_length (n div 2)" by simp
    then have "2 * (n div 2) + 2 \<le> 2 * 2 ^ bit_length (n div 2)" by simp
    moreover have "n \<le> 2 * (n div 2) + 1" by presburger
    ultimately have hi: "n < 2 ^ bit_length n" unfolding bl by simp
    from lo hi show ?thesis ..
  qed
qed

lemma low_bits_odd:
  fixes n :: int
  assumes "odd n"
  shows "NOT n AND (n - 1) = 0"
proof -
  have "even (n - 1)" using assms by simp
  have "even (NOT n)" using assms by simp
  have d1: "NOT n div 2 = NOT ((n - 1) div 2)"
    using assms by (simp add: not_int_def) presburger
  have "NOT n AND (n - 1) = 2 * ((NOT n div 2) AND ((n - 1) div 2))"
    using \<open>even (n - 1)\<close> by (subst and_int_rec) simp
  also have "\<dots> = 0" unfolding d1 by simp
  finally show ?thesis .
qed

lemma low_bits_even:
  fixes m :: int
  shows "NOT (2 * m) AND (2 * m - 1) = 2 * (NOT m AND (m - 1)) + 1"
proof -
  have o1: "odd (NOT (2 * m))" by simp
  have o2: "odd (2 * m - 1)" by simp
  have d1: "NOT (2 * m) div 2 = NOT m" by (simp add: not_int_def) 
  have d2: "(2 * m - 1) div 2 = m - 1" by presburger
  show ?thesis
    by (subst and_int_rec) (simp add: o1 o2 d1 d2)
qed

lemma trailing_zero_bits:
  fixes n :: int
  assumes "0 < n"
  shows "2 ^ bit_length (nat (NOT n AND (n - 1))) dvd n
       \<and> \<not> 2 ^ Suc (bit_length (nat (NOT n AND (n - 1)))) dvd n"
  using assms
proof (induction "nat n" arbitrary: n rule: less_induct)
  case less
  show ?case
  proof (cases "even n")
    case False
    then have "NOT n AND (n - 1) = 0" by (rule low_bits_odd)
    with False show ?thesis by (simp add: bit_length_0)
  next
    case True
    then obtain m where m: "n = 2 * m" by (elim evenE)
    with less.prems have mpos: "0 < m" by simp
    then have lt: "nat m < nat n" unfolding m by simp
    let ?f = "NOT m AND (m - 1)"
    have nn: "0 \<le> ?f" using mpos by simp
    have f: "NOT n AND (n - 1) = 2 * ?f + 1" unfolding m by (rule low_bits_even)
    have "nat (2 * ?f + 1) = 2 * nat ?f + 1" using nn by (simp add: nat_add_distrib nat_mult_distrib)
    then have bl: "bit_length (nat (NOT n AND (n - 1))) = Suc (bit_length (nat ?f))"
      unfolding f by (simp add: bit_length_pos)
    from less.hyps [OF lt mpos]
    have IH: "2 ^ bit_length (nat ?f) dvd m" "\<not> 2 ^ Suc (bit_length (nat ?f)) dvd m"
      by simp_all
    from IH(1) have a: "2 ^ Suc (bit_length (nat ?f)) dvd n" unfolding m by simp
    have "(2::int) ^ Suc (Suc (bit_length (nat ?f))) = 2 * 2 ^ Suc (bit_length (nat ?f))"
      by (rule power_Suc)
    moreover from IH(2) have "\<not> 2 * 2 ^ Suc (bit_length (nat ?f)) dvd 2 * m"
      by (subst dvd_mult_cancel_left) simp
    ultimately have b: "\<not> 2 ^ Suc (Suc (bit_length (nat ?f))) dvd n" unfolding m by simp
    from a b show ?thesis unfolding bl by simp
  qed
qed

lemma dvd_power_le_trailing:
  fixes n :: int
  assumes "0 < n" and "2 ^ m dvd n"
  shows "m \<le> bit_length (nat (NOT n AND (n - 1)))"
proof (rule ccontr)
  assume "\<not> ?thesis"
  then have "Suc (bit_length (nat (NOT n AND (n - 1)))) \<le> m" by simp
  then have "(2::int) ^ Suc (bit_length (nat (NOT n AND (n - 1)))) dvd 2 ^ m"
    by (rule le_imp_power_dvd)
  from this assms(2) have "2 ^ Suc (bit_length (nat (NOT n AND (n - 1)))) dvd n"
    by (rule dvd_trans)
  with trailing_zero_bits [OF assms(1)] show False by simp
qed

lemma count_righthand_zero_bits_dvd:
  assumes "0 \<le> number"
  shows "2 ^ count_righthand_zero_bits number bits dvd number"
proof (cases "number = 0")
  case True then show ?thesis by simp
next
  case False
  with assms have pos: "0 < number" by simp
  have "(2::int) ^ min bits (bit_length (nat (NOT number AND (number - 1))))
          dvd 2 ^ bit_length (nat (NOT number AND (number - 1)))"
    by (rule le_imp_power_dvd) simp
  with trailing_zero_bits [OF pos] have "2 ^ min bits (bit_length (nat (NOT number AND (number - 1)))) dvd number"
    using dvd_trans by blast
  with False show ?thesis by (simp add: count_righthand_zero_bits_def)
qed

lemma count_righthand_zero_bits_le: "count_righthand_zero_bits number bits \<le> bits"
  by (simp add: count_righthand_zero_bits_def)

lemma count_righthand_zero_bits_max:
  assumes "0 \<le> number" and "m \<le> bits" and "2 ^ m dvd number"
  shows "m \<le> count_righthand_zero_bits number bits"
proof (cases "number = 0")
  case True with assms(2) show ?thesis by (simp add: count_righthand_zero_bits_def)
next
  case False
  with assms(1) have pos: "0 < number" by simp
  from dvd_power_le_trailing [OF pos assms(3)] assms(2) False
  show ?thesis by (simp add: count_righthand_zero_bits_def)
qed

text \<open>One step of the loop: the block chosen at the lower bound.\<close>

lemma summarize_step:
  fixes first_int last_int :: int and bits :: nat
  assumes "0 \<le> first_int" and "first_int \<le> last_int"
  defines "nbits \<equiv> min (count_righthand_zero_bits first_int bits)
                         (bit_length (nat (last_int - first_int + 1)) - 1)"
  shows "nbits \<le> bits" and "2 ^ nbits dvd first_int"
    and "first_int + 2 ^ nbits - 1 \<le> last_int"
    and "\<And>m. m \<le> bits \<Longrightarrow> 2 ^ m dvd first_int \<Longrightarrow> first_int + 2 ^ m - 1 \<le> last_int
           \<Longrightarrow> m \<le> nbits"
proof -
  let ?len = "nat (last_int - first_int + 1)"
  have lenpos: "0 < ?len" using assms(2) by simp
  from bit_length_bounds [OF lenpos]
  have lo: "2 ^ (bit_length ?len - 1) \<le> ?len" and hi: "?len < 2 ^ bit_length ?len" by simp_all
  show "nbits \<le> bits" unfolding nbits_def using count_righthand_zero_bits_le [of first_int bits]
    by simp
  have "(2::int) ^ nbits dvd 2 ^ count_righthand_zero_bits first_int bits"
    unfolding nbits_def by (rule le_imp_power_dvd) simp
  with count_righthand_zero_bits_dvd [OF assms(1), of bits]
  show "2 ^ nbits dvd first_int" using dvd_trans by blast
  have p1: "(2::int) ^ nbits \<le> 2 ^ (bit_length ?len - 1)"
    unfolding nbits_def by (rule power_increasing) simp_all
  from lo have "int (2 ^ (bit_length ?len - 1)) \<le> int ?len" by (rule of_nat_mono)
  then have p2: "(2::int) ^ (bit_length ?len - 1) \<le> int ?len" by simp
  have p3: "int ?len = last_int - first_int + 1" using assms(2) by simp
  from p1 p2 p3 have "(2::int) ^ nbits \<le> last_int - first_int + 1" by linarith
  then show "first_int + 2 ^ nbits - 1 \<le> last_int" by simp
  fix m
  assume m: "m \<le> bits" "2 ^ m dvd first_int" "first_int + 2 ^ m - 1 \<le> last_int"
  from count_righthand_zero_bits_max [OF assms(1) m(1,2)]
  have a: "m \<le> count_righthand_zero_bits first_int bits" .
  from m(3) have q1: "(2::int) ^ m \<le> last_int - first_int + 1" by simp
  from hi have "int ?len < int (2 ^ bit_length ?len)" by (simp only: of_nat_less_iff)
  then have q2: "int ?len < 2 ^ bit_length ?len" by simp
  from q1 q2 p3 have "(2::int) ^ m < 2 ^ bit_length ?len" by linarith
  then have "m < bit_length ?len" by (simp add: power_strict_increasing_iff)
  then have b: "m \<le> bit_length ?len - 1" by simp
  from a b show "m \<le> nbits" unfolding nbits_def by simp
qed

text \<open>The loop on examples.\<close>

lemma bit_length_4: "bit_length 4 = 3"
  by (simp add: bit_length.simps)

lemma crzb_ex: "count_righthand_zero_bits 16777216 32 = 24"
  by (simp add: count_righthand_zero_bits_def bit_length.simps)

lemma summarize_example: "summarize_loop 32 16777216 16777219 = [(16777216, 30)]"
  by (simp add: summarize_loop.simps crzb_ex bit_length_4 Let_def)

lemma dq1: "dotted_quad_value ''1.0.0.0'' = Some 16777216"
  by (simp add: dotted_quad_value_def parse_digits_def is_digit_def digit_val_def)

lemma dq2: "dotted_quad_value ''1.0.0.3'' = Some 16777219"
  by (simp add: dotted_quad_value_def parse_digits_def is_digit_def digit_val_def)

lemma dqt: "dotted_quad_text 16777216 = ''1.0.0.0''"
  by (simp add: dotted_quad_text_def digits.simps digit_char_simps)

lemma convert_example:
  "convert_iprange_to_cidr ipv4_lib
     [\<lparr>Range_Start = ''1.0.0.0'', Range_End = ''1.0.0.3'', Range_Country = ''IR''\<rparr>] False
   = Inr [\<lparr>Network = ''1.0.0.0/30'', Country = ''IR''\<rparr>]"
  by (simp add: ipv4_lib_def dq1 dq2 dqt summarize_address_range_def max_prefixlen_def
      summarize_example digits.simps digit_char_simps)

text \<open>What a greedy cover is worth: its blocks are in order, apart, and fill the range.\<close>

lemma greedy_cover_union:
  "greedy_cover bits lo hi nets \<Longrightarrow> \<Union> (block_addresses bits ` set nets) = {lo..hi}"
proof (induction nets arbitrary: lo)
  case Nil then show ?case by simp
next
  case (Cons net rest)
  define sz :: int where "sz = 2 ^ (bits - snd net)"
  from Cons.prems have p: "fst net = lo" "lo + sz - 1 \<le> hi"
    "greedy_cover bits (lo + sz) hi rest" by (simp_all add: sz_def)
  from Cons.IH [OF p(3)] have IH: "\<Union> (block_addresses bits ` set rest) = {lo + sz..hi}" .
  have pos: "0 < sz" by (simp add: sz_def)
  have b: "block_addresses bits net = {lo ..< lo + sz}"
    by (simp add: block_addresses_def p(1) sz_def)
  have "{lo ..< lo + sz} \<union> {lo + sz..hi} = {lo..hi}"
    using p(2) pos by auto
  with b IH show ?case by simp
qed

lemma greedy_cover_ordered:
  "greedy_cover bits lo hi nets \<Longrightarrow>
   sorted_wrt (\<lambda>a b. \<forall>x \<in> block_addresses bits a. \<forall>y \<in> block_addresses bits b. x < y) nets"
proof (induction nets arbitrary: lo)
  case Nil then show ?case by simp
next
  case (Cons net rest)
  define sz :: int where "sz = 2 ^ (bits - snd net)"
  from Cons.prems have p: "fst net = lo" "greedy_cover bits (lo + sz) hi rest"
    by (simp_all add: sz_def)
  from greedy_cover_union [OF p(2)]
  have u: "\<Union> (block_addresses bits ` set rest) = {lo + sz..hi}" .
  have "\<forall>b \<in> set rest. \<forall>x \<in> block_addresses bits net. \<forall>y \<in> block_addresses bits b. x < y"
  proof (intro ballI)
    fix b x y
    assume b: "b \<in> set rest" and x: "x \<in> block_addresses bits net"
      and y: "y \<in> block_addresses bits b"
    from b y have "y \<in> \<Union> (block_addresses bits ` set rest)" by blast
    then have "lo + sz \<le> y" unfolding u by simp
    moreover from x have "x < lo + sz" by (simp add: block_addresses_def p(1) sz_def)
    ultimately show "x < y" by simp
  qed
  with Cons.IH [OF p(2)] show ?case by simp
qed

lemma summarize_loop_not_Nil:
  "first_int \<le> last_int \<Longrightarrow> summarize_loop bits first_int last_int \<noteq> []"
  by (subst summarize_loop.simps) (simp add: Let_def)

lemma row_networks_parsed:
  "ip_address l ipv6 (Range_Start row) = Some s \<Longrightarrow> ip_address l ipv6 (Range_End row) = Some e
   \<Longrightarrow> row_networks l ipv6 row =
       map (\<lambda>item. \<lparr>Network = network_str l ipv6 (fst item) (snd item),
                     Country = Range_Country row\<rparr>)
         (summarize_loop (max_prefixlen ipv6) s e)"
  by (simp add: row_networks_def)

lemma convert_iprange_to_cidr_rows:
  "\<forall>row \<in> set df. \<exists>s e. ip_address l ipv6 (Range_Start row) = Some s
        \<and> ip_address l ipv6 (Range_End row) = Some e \<and> s \<le> e
   \<Longrightarrow> convert_iprange_to_cidr l df ipv6 = Inr (concat (map (row_networks l ipv6) df))"
proof (induction df)
  case Nil then show ?case by simp
next
  case (Cons row df)
  then obtain s e where r: "ip_address l ipv6 (Range_Start row) = Some s"
    "ip_address l ipv6 (Range_End row) = Some e" "s \<le> e" by auto
  from Cons have IH: "convert_iprange_to_cidr l df ipv6 = Inr (concat (map (row_networks l ipv6) df))"
    by simp
  from r IH show ?case
    by (simp add: summarize_address_range_def row_networks_parsed [OF r(1,2)])
qed

text \<open>The loop builds a greedy cover.\<close>

lemma summarize_loop_greedy:
  "0 \<le> first_int \<Longrightarrow> first_int \<le> last_int + 1 \<Longrightarrow> last_int < 2 ^ bits
   \<Longrightarrow> greedy_cover bits first_int last_int (summarize_loop bits first_int last_int)"
proof (induction bits first_int last_int rule: summarize_loop.induct)
  case (1 bits first_int last_int)
  show ?case
  proof (cases "first_int \<le> last_int")
    case False
    with "1.prems"(2) have "first_int = last_int + 1" by simp
    then show ?thesis by (subst summarize_loop.simps) simp
  next
    case True
    define nbits where "nbits = min (count_righthand_zero_bits first_int bits)
                                    (bit_length (nat (last_int - first_int + 1)) - 1)"
    define next_int where "next_int = first_int + 2 ^ nbits"
    note st = summarize_step [OF "1.prems"(1) True, of bits, folded nbits_def]
    have le: "nbits \<le> bits" by (rule st(1))
    have dv: "2 ^ nbits dvd first_int" by (rule st(2))
    have fit: "next_int - 1 \<le> last_int" using st(3) by (simp add: next_int_def)
    have mx: "\<And>m. m \<le> bits \<Longrightarrow> 2 ^ m dvd first_int
                \<Longrightarrow> first_int + 2 ^ m - 1 \<le> last_int \<Longrightarrow> m \<le> nbits"
    proof -
      fix m :: nat
      assume "m \<le> bits" "2 ^ m dvd first_int" "first_int + 2 ^ m - 1 \<le> last_int"
      from summarize_step(4) [OF "1.prems"(1) True this]
      show "m \<le> nbits" unfolding nbits_def .
    qed
    have sub: "bits - (bits - nbits) = nbits" using le by simp
    have pos: "(0::int) < 2 ^ nbits" by simp
    have nx0: "0 \<le> next_int" using "1.prems"(1) pos unfolding next_int_def by linarith
    have nx1: "next_int \<le> last_int + 1" using fit by simp
    have rest: "greedy_cover bits next_int last_int
        (if next_int - 1 = 2 ^ bits - 1 then [] else summarize_loop bits next_int last_int)"
    proof (cases "next_int - 1 = 2 ^ bits - 1")
      case True
      with fit "1.prems"(3) have "next_int = last_int + 1" by simp
      with True show ?thesis by simp
    next
      case False
      have "greedy_cover bits next_int last_int (summarize_loop bits next_int last_int)"
        by (rule "1.IH" [OF \<open>first_int \<le> last_int\<close> nbits_def refl next_int_def False nx0 nx1
              "1.prems"(3)])
      with False show ?thesis by simp
    qed
    have unf: "summarize_loop bits first_int last_int =
        (first_int, bits - nbits) #
        (if next_int - 1 = 2 ^ bits - 1 then [] else summarize_loop bits next_int last_int)"
      by (subst summarize_loop.simps) (simp add: True Let_def nbits_def next_int_def)
    have head: "fst (first_int, bits - nbits) = first_int
        \<and> snd (first_int, bits - nbits) \<le> bits
        \<and> 2 ^ (bits - snd (first_int, bits - nbits)) dvd fst (first_int, bits - nbits)
        \<and> fst (first_int, bits - nbits) + 2 ^ (bits - snd (first_int, bits - nbits)) - 1 \<le> last_int
        \<and> (\<forall>m \<le> bits. 2 ^ m dvd first_int \<and> first_int + 2 ^ m - 1 \<le> last_int
              \<longrightarrow> m \<le> bits - snd (first_int, bits - nbits))"
      using dv fit mx by (simp add: sub next_int_def)
    from head rest show ?thesis
      unfolding unf by (simp add: sub next_int_def)
  qed
qed

lemma bit_length_131: "bit_length 131 = 8"
  by (simp add: bit_length.simps)

lemma bit_length_3: "bit_length 3 = 2"
  by (simp add: bit_length.simps)

lemma bit_length_1: "bit_length (Suc 0) = 1"
  by (simp add: bit_length.simps)

lemma crzb_a: "count_righthand_zero_bits 3221225984 32 = 9"
  by (simp add: count_righthand_zero_bits_def bit_length.simps)

lemma crzb_b: "count_righthand_zero_bits 3221226112 32 = 7"
  by (simp add: count_righthand_zero_bits_def bit_length.simps)

lemma crzb_c: "count_righthand_zero_bits 3221226114 32 = 1"
  by (simp add: count_righthand_zero_bits_def bit_length.simps)

lemma summarize_docstring_example:
  "summarize_loop 32 3221225984 3221226114 =
     [(3221225984, 25), (3221226112, 31), (3221226114, 32)]"
  by (simp add: summarize_loop.simps crzb_a crzb_b crzb_c bit_length_131 bit_length_3
      bit_length_1 Let_def)

lemma dotted_quad_value_examples:
  "dotted_quad_value ''192.0.2.0'' = Some 3221225984"
  "dotted_quad_value ''192.0.2.130'' = Some 3221226114"
  by (simp_all add: dotted_quad_value_def parse_digits_def is_digit_def digit_val_def)

lemma dotted_quad_text_examples:
  "dotted_quad_text 3221225984 = ''192.0.2.0''"
  "dotted_quad_text 3221226112 = ''192.0.2.128''"
  "dotted_quad_text 3221226114 = ''192.0.2.130''"
  by (simp_all add: dotted_quad_text_def digits.simps digit_char_simps)

text \<open>
  C1. When every row of the range table holds two addresses of the family, the first
  not above the last, the converter returns the rows of the table's rows one after the
  other, and the networks of one row, in the order they are returned, are blocks that
  lie one strictly below the next (so no two of them share an address), whose union is
  exactly the inclusive range from the start address to the end address, and each of
  them is the largest block (a power of two of addresses, starting at a multiple of
  its size) that starts at the first address not yet covered and does not pass the
  end address. There is at least one block.
\<close>

theorem convert_iprange_to_cidr_cover:
  assumes "\<forall>row \<in> set df. \<exists>s e. ip_address l ipv6 (Range_Start row) = Some s
             \<and> ip_address l ipv6 (Range_End row) = Some e
             \<and> 0 \<le> s \<and> s \<le> e \<and> e < 2 ^ max_prefixlen ipv6"
  shows "convert_iprange_to_cidr l df ipv6 = Inr (concat (map (row_networks l ipv6) df))
    \<and> (\<forall>row \<in> set df. \<forall>s e.
          ip_address l ipv6 (Range_Start row) = Some s
          \<longrightarrow> ip_address l ipv6 (Range_End row) = Some e
          \<longrightarrow> (\<exists>nets. summarize_address_range (max_prefixlen ipv6) s e = Inr nets
                \<and> convert_iprange_to_cidr l [row] ipv6 =
                    Inr (map (\<lambda>item. \<lparr>Network = network_str l ipv6 (fst item) (snd item),
                                        Country = Range_Country row\<rparr>) nets)
                \<and> row_networks l ipv6 row =
                    map (\<lambda>item. \<lparr>Network = network_str l ipv6 (fst item) (snd item),
                                   Country = Range_Country row\<rparr>) nets
                \<and> nets \<noteq> []
                \<and> sorted_wrt (\<lambda>a b. \<forall>x \<in> block_addresses (max_prefixlen ipv6) a.
                                      \<forall>y \<in> block_addresses (max_prefixlen ipv6) b. x < y) nets
                \<and> \<Union> (block_addresses (max_prefixlen ipv6) ` set nets) = {s..e}
                \<and> greedy_cover (max_prefixlen ipv6) s e nets))"
proof (rule conjI)
  from assms have "\<forall>row \<in> set df. \<exists>s e. ip_address l ipv6 (Range_Start row) = Some s
        \<and> ip_address l ipv6 (Range_End row) = Some e \<and> s \<le> e"
    by fast
  then show "convert_iprange_to_cidr l df ipv6 = Inr (concat (map (row_networks l ipv6) df))"
    by (rule convert_iprange_to_cidr_rows)
next
  let ?bits = "max_prefixlen ipv6"
  show "\<forall>row \<in> set df. \<forall>s e.
          ip_address l ipv6 (Range_Start row) = Some s
          \<longrightarrow> ip_address l ipv6 (Range_End row) = Some e
          \<longrightarrow> (\<exists>nets. summarize_address_range ?bits s e = Inr nets
                \<and> convert_iprange_to_cidr l [row] ipv6 =
                    Inr (map (\<lambda>item. \<lparr>Network = network_str l ipv6 (fst item) (snd item),
                                        Country = Range_Country row\<rparr>) nets)
                \<and> row_networks l ipv6 row =
                    map (\<lambda>item. \<lparr>Network = network_str l ipv6 (fst item) (snd item),
                                   Country = Range_Country row\<rparr>) nets
                \<and> nets \<noteq> []
                \<and> sorted_wrt (\<lambda>a b. \<forall>x \<in> block_addresses ?bits a.
                                      \<forall>y \<in> block_addresses ?bits b. x < y) nets
                \<and> \<Union> (block_addresses ?bits ` set nets) = {s..e}
                \<and> greedy_cover ?bits s e nets)"
  proof (intro ballI allI impI)
    fix row s e
    assume row: "row \<in> set df"
      and s: "ip_address l ipv6 (Range_Start row) = Some s"
      and e: "ip_address l ipv6 (Range_End row) = Some e"
    from assms row obtain s' e' where r: "ip_address l ipv6 (Range_Start row) = Some s'"
      "ip_address l ipv6 (Range_End row) = Some e'" "0 \<le> s'" "s' \<le> e'" "e' < 2 ^ ?bits"
      by fast
    from r(1) s have "s' = s" by simp
    moreover from r(2) e have "e' = e" by simp
    ultimately have b: "0 \<le> s" "s \<le> e" "e < 2 ^ ?bits" using r(3-5) by simp_all
    let ?nets = "summarize_loop ?bits s e"
    have g: "greedy_cover ?bits s e ?nets"
      by (rule summarize_loop_greedy) (use b in simp_all)
    have 1: "summarize_address_range ?bits s e = Inr ?nets"
      using b(2) by (simp add: summarize_address_range_def)
    have 2: "convert_iprange_to_cidr l [row] ipv6 =
        Inr (map (\<lambda>item. \<lparr>Network = network_str l ipv6 (fst item) (snd item),
                            Country = Range_Country row\<rparr>) ?nets)"
      using s e 1 by simp
    have 3: "row_networks l ipv6 row =
        map (\<lambda>item. \<lparr>Network = network_str l ipv6 (fst item) (snd item),
                       Country = Range_Country row\<rparr>) ?nets"
      using s e by (rule row_networks_parsed)
    have 4: "?nets \<noteq> []" using b(2) by (rule summarize_loop_not_Nil)
    have 5: "sorted_wrt (\<lambda>a b. \<forall>x \<in> block_addresses ?bits a.
                                 \<forall>y \<in> block_addresses ?bits b. x < y) ?nets"
      using g by (rule greedy_cover_ordered)
    have 6: "\<Union> (block_addresses ?bits ` set ?nets) = {s..e}"
      using g by (rule greedy_cover_union)
    show "\<exists>nets. summarize_address_range ?bits s e = Inr nets
                \<and> convert_iprange_to_cidr l [row] ipv6 =
                    Inr (map (\<lambda>item. \<lparr>Network = network_str l ipv6 (fst item) (snd item),
                                        Country = Range_Country row\<rparr>) nets)
                \<and> row_networks l ipv6 row =
                    map (\<lambda>item. \<lparr>Network = network_str l ipv6 (fst item) (snd item),
                                   Country = Range_Country row\<rparr>) nets
                \<and> nets \<noteq> []
                \<and> sorted_wrt (\<lambda>a b. \<forall>x \<in> block_addresses ?bits a.
                                      \<forall>y \<in> block_addresses ?bits b. x < y) nets
                \<and> \<Union> (block_addresses ?bits ` set nets) = {s..e}
                \<and> greedy_cover ?bits s e nets"
      using 1 2 3 4 5 6 g by (intro exI [of _ ?nets] conjI)
  qed
qed

theorem convert_iprange_to_cidr_cover_witness:
  "convert_iprange_to_cidr ipv4_lib
     [\<lparr>Range_Start = ''192.0.2.0'', Range_End = ''192.0.2.130'', Range_Country = ''IR''\<rparr>] False
     = Inr [\<lparr>Network = ''192.0.2.0/25'', Country = ''IR''\<rparr>,
            \<lparr>Network = ''192.0.2.128/31'', Country = ''IR''\<rparr>,
            \<lparr>Network = ''192.0.2.130/32'', Country = ''IR''\<rparr>]
   \<and> \<Union> (block_addresses 32 ` set [(3221225984, 25), (3221226112, 31), (3221226114, 32)])
       = {3221225984..3221226114}
   \<and> greedy_cover 32 3221225984 3221226114
        [(3221225984, 25), (3221226112, 31), (3221226114, 32)]"
proof -
  let ?row = "\<lparr>Range_Start = ''192.0.2.0'', Range_End = ''192.0.2.130'', Range_Country = ''IR''\<rparr>"
  have s: "ip_address ipv4_lib False (Range_Start ?row) = Some 3221225984"
    by (simp add: ipv4_lib_def dotted_quad_value_examples)
  have e: "ip_address ipv4_lib False (Range_End ?row) = Some 3221226114"
    by (simp add: ipv4_lib_def dotted_quad_value_examples)
  have valid: "\<forall>row \<in> set [?row]. \<exists>s e. ip_address ipv4_lib False (Range_Start row) = Some s
             \<and> ip_address ipv4_lib False (Range_End row) = Some e
             \<and> 0 \<le> s \<and> s \<le> e \<and> e < 2 ^ max_prefixlen False"
    using s e by (simp add: max_prefixlen_def)
  have mem: "?row \<in> set [?row]" by simp
  note t = convert_iprange_to_cidr_cover [OF valid, THEN conjunct2, THEN bspec, OF mem,
      THEN spec, THEN spec, THEN mp, OF s, THEN mp, OF e]
  then obtain nets where n:
    "summarize_address_range (max_prefixlen False) 3221225984 3221226114 = Inr nets"
    "convert_iprange_to_cidr ipv4_lib [?row] False =
       Inr (map (\<lambda>item. \<lparr>Network = network_str ipv4_lib False (fst item) (snd item),
                           Country = Range_Country ?row\<rparr>) nets)"
    "\<Union> (block_addresses (max_prefixlen False) ` set nets) = {3221225984..3221226114}"
    "greedy_cover (max_prefixlen False) 3221225984 3221226114 nets"
    by (elim exE conjE)
  from n(1) have nets: "nets = [(3221225984, 25), (3221226112, 31), (3221226114, 32)]"
    by (simp add: summarize_address_range_def max_prefixlen_def summarize_docstring_example)
  have m: "max_prefixlen False = 32" by (simp add: max_prefixlen_def)
  have rows: "map (\<lambda>item. \<lparr>Network = network_str ipv4_lib False (fst item) (snd item),
                           Country = Range_Country ?row\<rparr>)
               [(3221225984, 25), (3221226112, 31), (3221226114, 32)]
      = [\<lparr>Network = ''192.0.2.0/25'', Country = ''IR''\<rparr>,
         \<lparr>Network = ''192.0.2.128/31'', Country = ''IR''\<rparr>,
         \<lparr>Network = ''192.0.2.130/32'', Country = ''IR''\<rparr>]"
    by (simp add: ipv4_lib_def dotted_quad_text_examples digits.simps digit_char_simps)
  from n(2) have c: "convert_iprange_to_cidr ipv4_lib [?row] False
     = Inr [\<lparr>Network = ''192.0.2.0/25'', Country = ''IR''\<rparr>,
            \<lparr>Network = ''192.0.2.128/31'', Country = ''IR''\<rparr>,
            \<lparr>Network = ''192.0.2.130/32'', Country = ''IR''\<rparr>]"
    unfolding nets rows .
  from c n(3) [unfolded nets m] n(4) [unfolded nets m] show ?thesis by (intro conjI)
qed

end
